theory Spec2Isabelle
  imports Main "HOL-Library.Char_ord" "HOL-Library.List_Lexorder" "HOL-Library.Multiset"
begin

section \<open>wheel2conda: converting a wheel into conda packages\<close>

text \<open>
  A shallow embedding of \<^verbatim>\<open>wheel2conda.py\<close>. Python strings and bytes are
  \<^typ>\<open>string\<close> (a list of 8-bit characters, text being its UTF-8 encoding, so that
  \<^verbatim>\<open>encode('utf-8')\<close> is the identity and \<^verbatim>\<open>len\<close> of the encoded
  bytes is \<^const>\<open>length\<close>). Exceptions are values of the type \<open>error\<close>; a method
  that can raise returns \<open>error + 'a\<close>. The mutable \<^verbatim>\<open>PackageBuilder\<close> object is a
  record passed in and returned; the open \<^verbatim>\<open>TarFile\<close> is the list of members
  written so far.
\<close>

subsection \<open>Python string operations\<close>

definition startswith :: "string \<Rightarrow> string \<Rightarrow> bool" where
  "startswith s p = (take (length p) s = p)"

definition endswith :: "string \<Rightarrow> string \<Rightarrow> bool" where
  "endswith s suf = (length suf \<le> length s \<and> drop (length s - length suf) s = suf)"

text \<open>\<^verbatim>\<open>sep.join(xs)\<close>\<close>

fun str_join :: "string \<Rightarrow> string list \<Rightarrow> string" where
  "str_join sep [] = []"
| "str_join sep [x] = x"
| "str_join sep (x # y # ys) = x @ sep @ str_join sep (y # ys)"

text \<open>\<^verbatim>\<open>s.split(c)\<close> for a one-character separator: never the empty list.\<close>

fun split :: "char \<Rightarrow> string \<Rightarrow> string list" where
  "split c [] = [[]]"
| "split c (x # xs) =
     (if x = c then [] # split c xs
      else (case split c xs of w # ws \<Rightarrow> (x # w) # ws | [] \<Rightarrow> [[x]]))"

text \<open>\<^verbatim>\<open>s.split(c, 1)\<close>: at most one cut, at the first separator.\<close>

definition split1 :: "char \<Rightarrow> string \<Rightarrow> string list" where
  "split1 c s =
     (if c \<in> set s then [takeWhile (\<lambda>x. x \<noteq> c) s, tl (dropWhile (\<lambda>x. x \<noteq> c) s)]
      else [s])"

text \<open>\<^verbatim>\<open>s.replace(c, '')\<close> for a one-character \<open>c\<close>.\<close>

definition remove_char :: "char \<Rightarrow> string \<Rightarrow> string" where
  "remove_char c s = filter (\<lambda>x. x \<noteq> c) s"

text \<open>
  \<^verbatim>\<open>s.strip()\<close> and \<^verbatim>\<open>s.lower()\<close> on ASCII: the white space characters are
  tab, line feed, vertical tab, form feed, carriage return, the four separators
  \<open>0x1c\<close> to \<open>0x1f\<close> and the space; only \<open>A\<close> to \<open>Z\<close> change case.
\<close>

definition isspace :: "char \<Rightarrow> bool" where
  "isspace c = (let n = (of_char c :: nat) in (9 \<le> n \<and> n \<le> 13) \<or> (28 \<le> n \<and> n \<le> 32))"

definition strip :: "string \<Rightarrow> string" where
  "strip s = rev (dropWhile isspace (rev (dropWhile isspace s)))"

definition lower_char :: "char \<Rightarrow> char" where
  "lower_char c =
     (let n = (of_char c :: nat) in if 65 \<le> n \<and> n \<le> 90 then char_of (n + 32) else c)"

definition lower :: "string \<Rightarrow> string" where
  "lower s = map lower_char s"

text \<open>\<^verbatim>\<open>s.rstrip('=')\<close>\<close>

definition rstrip_eq :: "string \<Rightarrow> string" where
  "rstrip_eq s = rev (dropWhile (\<lambda>c. c = CHR ''='') (rev s))"

text \<open>\<^verbatim>\<open>str(n)\<close> for a length: the decimal digits.\<close>

fun str_nat :: "nat \<Rightarrow> string" where
  "str_nat n =
     (if n < 10 then [char_of (48 + n)]
      else str_nat (n div 10) @ [char_of (48 + n mod 10)])"

declare str_nat.simps [simp del]

subsection \<open>Exceptions\<close>

text \<open>
  \<open>BadEntryPoint ep\<close> is \<^verbatim>\<open>ValueError("Bad entry point: %r" % ep)\<close>, carrying the
  value \<open>ep\<close>; \<open>UnpackError\<close> is the \<^verbatim>\<open>ValueError\<close> of a tuple assignment with
  the wrong number of values.
\<close>

datatype error =
    BadWheelError string
  | BadEntryPoint string
  | UnpackError
  | KeyError string
  | IndexError
  | NotImplementedError string
  | FileNotFoundError
  | NotADirectoryError
  | IsADirectoryError
  | DuplicateOptionError string string
  | ParsingError

subsection \<open>Constants of the module\<close>

datatype Platform = linux | osx | win

fun Platform_name :: "Platform \<Rightarrow> string" where
  "Platform_name linux = ''linux''"
| "Platform_name osx = ''osx''"
| "Platform_name win = ''win''"

definition script_template :: "string \<Rightarrow> string \<Rightarrow> string \<Rightarrow> string" where
  "script_template interpreter module func =
     ''#!'' @ interpreter @ [CHR 0x0A] @
     ''from '' @ module @ '' import '' @ func @ [CHR 0x0A] @
     ''if __name__ == '__main__':'' @ [CHR 0x0A] @
     ''    '' @ func @ ''()'' @ [CHR 0x0A]"

definition PREFIX :: string where
  "PREFIX = ''/opt/anaconda1anaconda2anaconda3''"

definition PYTHON_VERSIONS :: "string list" where
  "PYTHON_VERSIONS = [''3.5'', ''3.4'', ''2.7'']"

definition PLATFORM_PAIRS :: "(Platform \<times> string) list" where
  "PLATFORM_PAIRS = [(linux, ''64''), (linux, ''32''), (osx, ''64''), (win, ''64''), (win, ''32'')]"

subsection \<open>The unpacked wheel: a directory tree\<close>

text \<open>
  The wheel is unpacked into a temporary directory. A node of the tree is a regular file
  with its bytes or a directory with its entries, in the order in which the operating
  system lists them (\<^verbatim>\<open>iterdir\<close>, \<^verbatim>\<open>os.walk\<close>). The names are file names:
  not empty, without a slash, and neither \<open>.\<close> nor \<open>..\<close>; the entries of a directory
  have different names.
\<close>

datatype node =
    is_File: File (node_name: string) (file_bytes: string)
  | is_Dir: Dir (node_name: string) (entries: "node list")

definition valid_name :: "string \<Rightarrow> bool" where
  "valid_name n = (n \<noteq> [] \<and> CHR ''/'' \<notin> set n \<and> n \<noteq> ''.'' \<and> n \<noteq> ''..'')"

fun valid_node :: "node \<Rightarrow> bool" where
  "valid_node (File n c) = valid_name n"
| "valid_node (Dir n cs) = (valid_name n \<and> distinct (map node_name cs) \<and> list_all valid_node cs)"

text \<open>\<^verbatim>\<open>(d / fname).open().read()\<close> and \<^verbatim>\<open>(d / fname).is_file()\<close>\<close>

definition open_read :: "node \<Rightarrow> string \<Rightarrow> error + string" where
  "open_read d fname =
     (case d of
        File n c \<Rightarrow> Inl NotADirectoryError
      | Dir n cs \<Rightarrow>
          (case filter (\<lambda>x. node_name x = fname) cs of
             [] \<Rightarrow> Inl FileNotFoundError
           | File m c # rest \<Rightarrow> Inr c
           | Dir m ds # rest \<Rightarrow> Inl IsADirectoryError))"

definition is_file :: "node \<Rightarrow> string \<Rightarrow> bool" where
  "is_file d fname = (case open_read d fname of Inl e \<Rightarrow> False | Inr c \<Rightarrow> True)"

text \<open>
  Iterating over a file opened in text mode: \<open>CR LF\<close> and a lone \<open>CR\<close> end a line as
  \<open>LF\<close> does. The lines are given without their line end; every use strips them.
\<close>

fun universal_newlines :: "string \<Rightarrow> string" where
  "universal_newlines [] = []"
| "universal_newlines [c] = (if c = CHR 0x0D then [CHR 0x0A] else [c])"
| "universal_newlines (c # d # cs) =
     (if c = CHR 0x0D \<and> d = CHR 0x0A then CHR 0x0A # universal_newlines cs
      else if c = CHR 0x0D then CHR 0x0A # universal_newlines (d # cs)
      else c # universal_newlines (d # cs))"

definition text_lines :: "string \<Rightarrow> string list" where
  "text_lines s =
     (let ps = split (CHR 0x0A) (universal_newlines s)
      in if last ps = [] then butlast ps else ps)"

subsection \<open>Reading metadata\<close>

text \<open>The loop of \<^verbatim>\<open>_read_metadata\<close> over the lines, \<open>res\<close> the dictionary so far.\<close>

fun read_metadata_lines ::
  "string list \<Rightarrow> (string \<rightharpoonup> string list) \<Rightarrow> error + (string \<rightharpoonup> string list)" where
  "read_metadata_lines [] res = Inr res"
| "read_metadata_lines (line # ls) res =
     (if strip line = [] then Inr res
      else (case split1 (CHR '':'') (strip line) of
              [k, v] \<Rightarrow>
                read_metadata_lines ls
                  (res(strip k \<mapsto> (case res (strip k) of None \<Rightarrow> [] | Some vs \<Rightarrow> vs) @ [strip v]))
            | _ \<Rightarrow> Inl UnpackError))"

definition read_metadata :: "node \<Rightarrow> string \<Rightarrow> error + (string \<rightharpoonup> string list)" where
  "read_metadata d fname =
     (case open_read d fname of
        Inl e \<Rightarrow> Inl e
      | Inr text \<Rightarrow> read_metadata_lines (text_lines text) Map.empty)"

text \<open>\<^verbatim>\<open>d[key][0]\<close> on such a dictionary.\<close>

definition first_value :: "(string \<rightharpoonup> string list) \<Rightarrow> string \<Rightarrow> error + string" where
  "first_value d key =
     (case d key of
        None \<Rightarrow> Inl (KeyError key)
      | Some [] \<Rightarrow> Inl IndexError
      | Some (v # vs) \<Rightarrow> Inr v)"

subsection \<open>WheelContents\<close>

record WheelContents =
  unpacked :: "node list"
  metadata :: "string \<rightharpoonup> string list"

definition find_dist_info :: "WheelContents \<Rightarrow> error + node" where
  "find_dist_info wc =
     (case filter (\<lambda>x. endswith (node_name x) ''.dist-info'') (unpacked wc) of
        [] \<Rightarrow> Inl (BadWheelError ''Didn't find .dist-info directory'')
      | x # xs \<Rightarrow> Inr x)"

text \<open>The constructor, after the archive is extracted to the tree \<open>tree\<close>.\<close>

definition WheelContents_init :: "node list \<Rightarrow> error + WheelContents" where
  "WheelContents_init tree =
     (case find_dist_info \<lparr>unpacked = tree, metadata = Map.empty\<rparr> of
        Inl e \<Rightarrow> Inl e
      | Inr d \<Rightarrow>
          (case read_metadata d ''METADATA'' of
             Inl e \<Rightarrow> Inl e
           | Inr m \<Rightarrow> Inr \<lparr>unpacked = tree, metadata = m\<rparr>))"

subsection \<open>Library functions\<close>

text \<open>
  \<^verbatim>\<open>posixpath.join(a, *p)\<close> and \<^verbatim>\<open>posixpath.normpath(path)\<close>, as the standard
  library defines them. The host is a POSIX system: \<^verbatim>\<open>os.sep\<close> is the slash and
  \<^verbatim>\<open>os.path\<close> is \<^verbatim>\<open>posixpath\<close>.
\<close>

fun posixpath_join :: "string \<Rightarrow> string list \<Rightarrow> string" where
  "posixpath_join path [] = path"
| "posixpath_join path (b # bs) =
     posixpath_join
       (if startswith b ''/'' then b
        else if path = [] \<or> endswith path ''/'' then path @ b
        else path @ ''/'' @ b) bs"

fun normpath_comps :: "nat \<Rightarrow> string list \<Rightarrow> string list \<Rightarrow> string list" where
  "normpath_comps initial_slashes [] new_comps = new_comps"
| "normpath_comps initial_slashes (cmp # comps) new_comps =
     (if cmp = [] \<or> cmp = ''.'' then normpath_comps initial_slashes comps new_comps
      else if cmp \<noteq> ''..'' \<or> (initial_slashes = 0 \<and> new_comps = [])
                \<or> (new_comps \<noteq> [] \<and> last new_comps = ''..'')
           then normpath_comps initial_slashes comps (new_comps @ [cmp])
      else if new_comps \<noteq> [] then normpath_comps initial_slashes comps (butlast new_comps)
      else normpath_comps initial_slashes comps new_comps)"

definition normpath :: "string \<Rightarrow> string" where
  "normpath path =
     (if path = [] then ''.''
      else
        let initial_slashes =
              (if startswith path ''/''
               then (if startswith path ''//'' \<and> \<not> startswith path ''///'' then 2 else 1)
               else 0 :: nat);
            comps = normpath_comps initial_slashes (split (CHR ''/'') path) [];
            p = replicate initial_slashes (CHR ''/'') @ str_join ''/'' comps
        in if p = [] then ''.'' else p)"

text \<open>\<^verbatim>\<open>base64.urlsafe_b64encode\<close>\<close>

definition b64_alphabet :: string where
  "b64_alphabet = ''ABCDEFGHIJKLMNOPQRSTUVWXYZabcdefghijklmnopqrstuvwxyz0123456789-_''"

fun urlsafe_b64encode :: "string \<Rightarrow> string" where
  "urlsafe_b64encode [] = []"
| "urlsafe_b64encode [a] =
     (let x = (of_char a :: nat)
      in [b64_alphabet ! (x div 4), b64_alphabet ! (x mod 4 * 16), CHR ''='', CHR ''=''])"
| "urlsafe_b64encode [a, b] =
     (let x = (of_char a :: nat); y = (of_char b :: nat)
      in [b64_alphabet ! (x div 4), b64_alphabet ! (x mod 4 * 16 + y div 16),
          b64_alphabet ! (y mod 16 * 4), CHR ''=''])"
| "urlsafe_b64encode (a # b # c # r) =
     (let x = (of_char a :: nat); y = (of_char b :: nat); z = (of_char c :: nat)
      in [b64_alphabet ! (x div 4), b64_alphabet ! (x mod 4 * 16 + y div 16),
          b64_alphabet ! (y mod 16 * 4 + z div 64), b64_alphabet ! (z mod 64)]
         @ urlsafe_b64encode r)"

text \<open>
  The other library functions the program calls are parameters of the model:
  \<^item> \<open>sha256\<close>: \<^verbatim>\<open>hashlib.sha256(b).digest()\<close>;
  \<^item> \<open>find_exe\<close>: the bytes of the launcher file that
    \<^verbatim>\<open>win_cli_launchers.find_exe(arch)\<close> names;
  \<^item> \<open>csv_reader\<close>, \<open>csv_writerow\<close>: the rows \<^verbatim>\<open>csv.reader\<close> reads from a text,
    and the text \<^verbatim>\<open>csv.writer.writerow\<close> writes for a row;
  \<^item> \<open>json_string\<close>: the JSON text of a string (\<^verbatim>\<open>json.dumps(s)\<close>);
  \<^item> \<open>ini_sections\<close>: the syntax of \<^verbatim>\<open>configparser\<close>: the sections of a text in
    order, each with its options in order, the name as it is written and the value as
    \<^verbatim>\<open>items()\<close> gives it; or the error of the parser. A section of defaults is not
    modelled.
\<close>

record library =
  sha256 :: "string \<Rightarrow> string"
  find_exe :: "string \<Rightarrow> string"
  csv_reader :: "string \<Rightarrow> string list list"
  csv_writerow :: "string list \<Rightarrow> string"
  json_string :: "string \<Rightarrow> string"
  ini_sections :: "string \<Rightarrow> error + (string \<times> (string \<times> string) list) list"

subsection \<open>The tar file\<close>

record tarinfo =
  ti_name :: string
  ti_isdir :: bool
  ti_data :: string

text \<open>
  \<^verbatim>\<open>TarFile.add(name, arcname, filter)\<close>: the members it appends for the node at
  \<open>name\<close>. The member's name is \<open>arcname\<close> without leading slashes; a member the filter
  maps to \<open>None\<close> is left out, with everything below it; the entries of a directory follow
  it in sorted order.
\<close>

fun tar_members :: "(tarinfo \<Rightarrow> tarinfo option) \<Rightarrow> node \<Rightarrow> string \<Rightarrow> tarinfo list" where
  "tar_members flt (File n c) arcname =
     (case flt \<lparr>ti_name = dropWhile (\<lambda>x. x = CHR ''/'') arcname, ti_isdir = False, ti_data = c\<rparr> of
        None \<Rightarrow> []
      | Some ti \<Rightarrow> [ti])"
| "tar_members flt (Dir n cs) arcname =
     (case flt \<lparr>ti_name = dropWhile (\<lambda>x. x = CHR ''/'') arcname, ti_isdir = True, ti_data = []\<rparr> of
        None \<Rightarrow> []
      | Some ti \<Rightarrow>
          ti # concat (map (\<lambda>c. tar_members flt c (posixpath_join arcname [node_name c]))
                          (sort_key node_name cs)))"

text \<open>\<^verbatim>\<open>TarFile.addfile(TarInfo(path), BytesIO(contents))\<close>\<close>

definition addfile :: "tarinfo list \<Rightarrow> string \<Rightarrow> string \<Rightarrow> tarinfo list" where
  "addfile tf path contents = tf @ [\<lparr>ti_name = path, ti_isdir = False, ti_data = contents\<rparr>]"

subsection \<open>PackageBuilder\<close>

record PackageBuilder =
  wheel_contents :: WheelContents
  python_version :: string
  platform :: Platform
  bitness :: string
  files :: "string list"
  has_prefix_files :: "string list"
  py_record_extra :: "(string \<times> string \<times> nat) list"
  build_no :: nat

definition PackageBuilder_init ::
  "WheelContents \<Rightarrow> string \<Rightarrow> Platform \<Rightarrow> string \<Rightarrow> PackageBuilder" where
  "PackageBuilder_init wc pv pf bits =
     \<lparr>wheel_contents = wc, python_version = pv, platform = pf, bitness = bits,
      files = [], has_prefix_files = [], py_record_extra = [], build_no = 0\<rparr>"

definition record_file :: "PackageBuilder \<Rightarrow> string \<Rightarrow> bool \<Rightarrow> PackageBuilder" where
  "record_file b arcname has_prefix =
     (let b1 = b\<lparr>files := files b @ [arcname]\<rparr>
      in if has_prefix then b1\<lparr>has_prefix_files := has_prefix_files b1 @ [arcname]\<rparr> else b1)"

text \<open>
  \<^verbatim>\<open>os.walk(d)\<close> with \<^verbatim>\<open>os.path.relpath(dirpath, start=d)\<close>: top down, for every
  directory the path from \<open>d\<close> to it (its segments) and the names of its files.
\<close>

fun walk :: "string list \<Rightarrow> node \<Rightarrow> (string list \<times> string list) list" where
  "walk segs (File n c) = []"
| "walk segs (Dir n cs) =
     (segs, map node_name (filter is_File cs))
     # concat (map (\<lambda>d. walk (segs @ [node_name d]) d) (filter is_Dir cs))"

definition relpath :: "string list \<Rightarrow> string" where
  "relpath segs = (if segs = [] then ''.'' else str_join ''/'' segs)"

definition record_file_or_dir :: "PackageBuilder \<Rightarrow> string \<Rightarrow> node \<Rightarrow> PackageBuilder" where
  "record_file_or_dir b arcname src =
     (if is_Dir src
      then fold (\<lambda>(segs, filenames) b1.
                   fold (\<lambda>f b2. record_file b2
                                   (normpath (posixpath_join arcname [relpath segs, f])) False)
                        filenames b1)
                (walk [] src) b
      else record_file b arcname False)"

definition site_packages_path :: "PackageBuilder \<Rightarrow> string" where
  "site_packages_path b =
     (if platform b = win then ''Lib/site-packages/''
      else ''lib/python'' @ python_version b @ ''/site-packages/'')"

definition scripts_path :: "PackageBuilder \<Rightarrow> string" where
  "scripts_path b = (if platform b = win then ''Scripts/'' else ''bin/'')"

text \<open>
  The builder and the open tar file are passed together through the steps of
  \<^verbatim>\<open>build\<close>.
\<close>

type_synonym state = "PackageBuilder \<times> tarinfo list"

subsubsection \<open>Copying the module\<close>

definition exclude_record :: "tarinfo \<Rightarrow> tarinfo option" where
  "exclude_record ti = (if endswith (ti_name ti) ''RECORD'' then None else Some ti)"

text \<open>One round of the inner loop of \<^verbatim>\<open>_add_data_dir\<close>, for the entry \<open>f\<close>.\<close>

definition add_data_file :: "node \<Rightarrow> state \<Rightarrow> state" where
  "add_data_file f st =
     (case st of (b, tf) \<Rightarrow>
        (record_file_or_dir b (node_name f) f, tf @ tar_members Some f (node_name f)))"

fun add_data_dir_loop :: "node list \<Rightarrow> state \<Rightarrow> error + state" where
  "add_data_dir_loop [] st = Inr st"
| "add_data_dir_loop (d # ds) st =
     (if node_name d = ''data''
      then (case d of
              File n c \<Rightarrow> Inl NotADirectoryError
            | Dir n fs \<Rightarrow> add_data_dir_loop ds (fold add_data_file fs st))
      else Inl (NotImplementedError (node_name d @ '' under data dir'')))"

definition add_data_dir :: "node \<Rightarrow> state \<Rightarrow> error + state" where
  "add_data_dir src st =
     (case src of
        File n c \<Rightarrow> Inl NotADirectoryError
      | Dir n ds \<Rightarrow> add_data_dir_loop ds st)"

fun add_module_loop :: "node list \<Rightarrow> state \<Rightarrow> error + state" where
  "add_module_loop [] st = Inr st"
| "add_module_loop (src # rest) st =
     (case st of (b, tf) \<Rightarrow>
        if endswith (node_name src) ''.data''
        then (case add_data_dir src st of
                Inl e \<Rightarrow> Inl e
              | Inr st1 \<Rightarrow> add_module_loop rest st1)
        else
          let dst = site_packages_path b @ node_name src
          in if endswith (node_name src) ''.dist-info''
             then add_module_loop rest
                    (record_file_or_dir b dst src, tf @ tar_members exclude_record src dst)
             else add_module_loop rest
                    (record_file_or_dir b dst src, tf @ tar_members Some src dst))"

definition add_module :: "state \<Rightarrow> error + state" where
  "add_module st = add_module_loop (unpacked (wheel_contents (fst st))) st"

subsubsection \<open>Launcher scripts\<close>

definition py_record_file :: "library \<Rightarrow> PackageBuilder \<Rightarrow> string \<Rightarrow> string \<Rightarrow> PackageBuilder" where
  "py_record_file lib b rel cont =
     (let digest = rstrip_eq (urlsafe_b64encode (sha256 lib cont))
      in b\<lparr>py_record_extra := py_record_extra b @ [(rel, ''sha256='' @ digest, length cont)]\<rparr>)"

definition write_script_unix :: "library \<Rightarrow> state \<Rightarrow> string \<Rightarrow> string \<Rightarrow> state" where
  "write_script_unix lib st name cont =
     (case st of (b, tf) \<Rightarrow>
        let path = scripts_path b @ name;
            tf1 = addfile tf path cont;
            b1 = record_file b path True
        in (py_record_file lib b1 path cont, tf1))"

text \<open>
  \<^verbatim>\<open>tf.add(src, arcname=dst)\<close> for the launcher, a regular file, appends one member:
  its name is \<open>dst\<close> without leading slashes, as in \<open>tar_members\<close>, and its data are
  the launcher's bytes. The file is then read again for the RECORD row.
\<close>

definition write_script_windows :: "library \<Rightarrow> state \<Rightarrow> string \<Rightarrow> string \<Rightarrow> state" where
  "write_script_windows lib st name cont =
     (case write_script_unix lib st (name @ ''-script.py'') cont of (b, tf) \<Rightarrow>
        let arch = (if bitness b = ''64'' then ''x64'' else ''x86'');
            src = find_exe lib arch;
            dst = scripts_path b @ name @ ''.exe'';
            tf1 = tf @ [\<lparr>ti_name = dropWhile (\<lambda>x. x = CHR ''/'') dst, ti_isdir = False,
                         ti_data = src\<rparr>];
            b1 = record_file b dst False
        in (py_record_file lib b1 dst src, tf1))"

text \<open>
  The class \<^verbatim>\<open>CaseSensitiveContextParser\<close> derives from \<^verbatim>\<open>ConfigParser\<close> and
  gives itself one attribute, \<^verbatim>\<open>optionxfrom = staticmethod(str)\<close>. The parser
  transforms every option name with its method \<^verbatim>\<open>optionxform\<close>, which the class
  inherits: \<^verbatim>\<open>return optionstr.lower()\<close>. The parser is strict: an option name that
  comes twice in a section, after the transformation, is an error.
\<close>

definition optionxfrom :: "string \<Rightarrow> string" where
  "optionxfrom s = s"

definition optionxform :: "string \<Rightarrow> string" where
  "optionxform optionstr = lower optionstr"

fun read_options ::
  "string \<Rightarrow> (string \<times> string) list \<Rightarrow> (string \<times> string) list \<Rightarrow> error + (string \<times> string) list" where
  "read_options sect [] acc = Inr acc"
| "read_options sect ((k, v) # kvs) acc =
     (if optionxform k \<in> set (map fst acc) then Inl (DuplicateOptionError sect (optionxform k))
      else read_options sect kvs (acc @ [(optionxform k, v)]))"

fun read_sections ::
  "(string \<times> (string \<times> string) list) list \<Rightarrow> error + (string \<times> (string \<times> string) list) list" where
  "read_sections [] = Inr []"
| "read_sections ((sect, kvs) # rest) =
     (case read_options sect kvs [] of
        Inl e \<Rightarrow> Inl e
      | Inr opts \<Rightarrow>
          (case read_sections rest of
             Inl e \<Rightarrow> Inl e
           | Inr secs \<Rightarrow> Inr ((sect, opts) # secs)))"

text \<open>
  \<^verbatim>\<open>cp.read([path])\<close> followed by \<^verbatim>\<open>cp[section].items()\<close>. A file that
  \<^verbatim>\<open>read\<close> cannot open is skipped, and the parser has no section then.
\<close>

definition section_items :: "library \<Rightarrow> string \<Rightarrow> string \<Rightarrow> error + (string \<times> string) list" where
  "section_items lib text sect =
     (case ini_sections lib text of
        Inl e \<Rightarrow> Inl e
      | Inr raw \<Rightarrow>
          (case read_sections raw of
             Inl e \<Rightarrow> Inl e
           | Inr secs \<Rightarrow>
               (case map_of secs sect of
                  None \<Rightarrow> Inl (KeyError sect)
                | Some items \<Rightarrow> Inr items)))"

fun create_scripts_loop :: "library \<Rightarrow> (string \<times> string) list \<Rightarrow> state \<Rightarrow> error + state" where
  "create_scripts_loop lib [] st = Inr st"
| "create_scripts_loop lib ((name, ep) # rest) st =
     (if count_list ep (CHR '':'') \<noteq> 1 then Inl (BadEntryPoint ep)
      else (case split (CHR '':'') ep of
              [module, func] \<Rightarrow>
                let s = script_template (PREFIX @ ''/bin/python'') module func
                in create_scripts_loop lib rest
                     (if platform (fst st) = win then write_script_windows lib st name s
                      else write_script_unix lib st name s)
            | _ \<Rightarrow> Inl UnpackError))"

definition create_scripts :: "library \<Rightarrow> state \<Rightarrow> error + state" where
  "create_scripts lib st =
     (case find_dist_info (wheel_contents (fst st)) of
        Inl e \<Rightarrow> Inl e
      | Inr dist_info \<Rightarrow>
          if \<not> is_file dist_info ''entry_points.txt'' then Inr st
          else (case open_read dist_info ''entry_points.txt'' of
                  Inl e \<Rightarrow> Inl (KeyError ''console_scripts'')
                | Inr text \<Rightarrow>
                    (case section_items lib text ''console_scripts'' of
                       Inl e \<Rightarrow> Inl e
                     | Inr items \<Rightarrow> create_scripts_loop lib items st)))"

subsubsection \<open>The RECORD file\<close>

text \<open>One round of the loop over the rows of the wheel's RECORD.\<close>

definition rewrite_row :: "string \<Rightarrow> string list \<Rightarrow> error + string list" where
  "rewrite_row pre row =
     (case row of
        [] \<Rightarrow> Inl IndexError
      | path # cols \<Rightarrow>
          let path_parts = split (CHR ''/'') path
          in if length path_parts > 2 \<and> endswith (path_parts ! 0) ''.data''
                \<and> path_parts ! 1 = ''data''
             then Inr (posixpath_join pre (drop 2 path_parts) # cols)
             else Inr row)"

fun rewrite_rows :: "string \<Rightarrow> string list list \<Rightarrow> error + string list list" where
  "rewrite_rows pre [] = Inr []"
| "rewrite_rows pre (row # rows) =
     (case rewrite_row pre row of
        Inl e \<Rightarrow> Inl e
      | Inr r \<Rightarrow>
          (case rewrite_rows pre rows of
             Inl e \<Rightarrow> Inl e
           | Inr rs \<Rightarrow> Inr (r # rs)))"

definition prefix_from_site_pkgs :: "PackageBuilder \<Rightarrow> string" where
  "prefix_from_site_pkgs b = (if platform b = win then ''../..'' else ''../../..'')"

text \<open>The rows given to \<^verbatim>\<open>installed_record.writerow\<close>, in order.\<close>

definition installed_record :: "PackageBuilder \<Rightarrow> string list list \<Rightarrow> error + string list list" where
  "installed_record b wheel_record =
     (case rewrite_rows (prefix_from_site_pkgs b) wheel_record of
        Inl e \<Rightarrow> Inl e
      | Inr rows \<Rightarrow>
          Inr (rows @ map (\<lambda>(rel, hash, len).
                             [posixpath_join (prefix_from_site_pkgs b) [rel], hash, str_nat len])
                          (py_record_extra b)))"

definition write_pep376_record :: "library \<Rightarrow> state \<Rightarrow> error + state" where
  "write_pep376_record lib st =
     (case st of (b, tf) \<Rightarrow>
        (case find_dist_info (wheel_contents b) of
           Inl e \<Rightarrow> Inl e
         | Inr dist_info \<Rightarrow>
             (case open_read dist_info ''RECORD'' of
                Inl e \<Rightarrow> Inl e
              | Inr text \<Rightarrow>
                  (case installed_record b (csv_reader lib text) of
                     Inl e \<Rightarrow> Inl e
                   | Inr rows \<Rightarrow>
                       let record_path = site_packages_path b @ node_name dist_info @ ''/RECORD''
                       in Inr (b, addfile tf record_path (concat (map (csv_writerow lib) rows)))))))"

subsubsection \<open>The files under info/\<close>

text \<open>
  The values of the index: strings, the build number, a list. \<^verbatim>\<open>json.dumps\<close> with
  \<^verbatim>\<open>indent=2, sort_keys=True\<close> writes every item of a list or dictionary on a line of
  its own, indented by two spaces for each level, the items separated by a comma and a key
  from its value by a colon and a space, the keys of the dictionary in sorted order.
\<close>

datatype json = JString string | JInt nat | JList "json list"

definition newline_indent :: "nat \<Rightarrow> string" where
  "newline_indent level = CHR 0x0A # replicate (2 * level) (CHR '' '')"

fun json_value :: "library \<Rightarrow> nat \<Rightarrow> json \<Rightarrow> string" where
  "json_value lib level (JString s) = json_string lib s"
| "json_value lib level (JInt n) = str_nat n"
| "json_value lib level (JList xs) =
     (if xs = [] then ''[]''
      else ''['' @ newline_indent (level + 1)
           @ str_join ('','' @ newline_indent (level + 1)) (map (json_value lib (level + 1)) xs)
           @ newline_indent level @ '']'')"

definition json_dumps :: "library \<Rightarrow> (string \<times> json) list \<Rightarrow> string" where
  "json_dumps lib d =
     (if d = [] then ''{}''
      else ''{'' @ newline_indent 1
           @ str_join ('','' @ newline_indent 1)
               (map (\<lambda>(k, v). json_string lib k @ '': '' @ json_value lib 1 v) (sort_key fst d))
           @ newline_indent 0 @ ''}'')"

text \<open>The dictionary \<open>ix\<close>, its items in the order of the source.\<close>

definition index_dict :: "PackageBuilder \<Rightarrow> error + (string \<times> json) list" where
  "index_dict b =
     (let py_version_nodot = remove_char (CHR ''.'') (python_version b)
      in case first_value (metadata (wheel_contents b)) ''Name'' of
           Inl e \<Rightarrow> Inl e
         | Inr name \<Rightarrow>
             (case first_value (metadata (wheel_contents b)) ''Version'' of
                Inl e \<Rightarrow> Inl e
              | Inr version \<Rightarrow>
                  Inr [(''arch'', JString (if bitness b = ''64'' then ''x86_64'' else ''x86'')),
                       (''build'', JString (''py'' @ py_version_nodot @ ''_'' @ str_nat (build_no b))),
                       (''build_number'', JInt (build_no b)),
                       (''depends'', JList [JString (''python '' @ python_version b @ ''*'')]),
                       (''license'', JString ''UNKNOWN''),
                       (''name'', JString name),
                       (''platform'', JString (Platform_name (platform b))),
                       (''subdir'', JString (Platform_name (platform b) @ ''-'' @ bitness b)),
                       (''version'', JString version)]))"

definition write_index :: "library \<Rightarrow> state \<Rightarrow> error + state" where
  "write_index lib st =
     (case st of (b, tf) \<Rightarrow>
        (case index_dict b of
           Inl e \<Rightarrow> Inl e
         | Inr ix \<Rightarrow> Inr (b, addfile tf ''info/index.json'' (json_dumps lib ix))))"

definition write_has_prefix_list :: "state \<Rightarrow> state" where
  "write_has_prefix_list st =
     (case st of (b, tf) \<Rightarrow>
        let lines = map (\<lambda>path. PREFIX @ '' text '' @ path) (has_prefix_files b)
        in (b, addfile tf ''info/has_prefix'' (str_join [CHR 0x0A] lines)))"

definition write_files_list :: "state \<Rightarrow> state" where
  "write_files_list st =
     (case st of (b, tf) \<Rightarrow> (b, addfile tf ''info/files'' (str_join [CHR 0x0A] (files b))))"

subsubsection \<open>build\<close>

text \<open>
  The steps in order, on a new tar file; an exception in a step ends the build. The result
  is the builder as the steps left it and the members of the closed archive.
\<close>

definition build :: "library \<Rightarrow> PackageBuilder \<Rightarrow> error + state" where
  "build lib b =
     (case add_module (b, []) of
        Inl e \<Rightarrow> Inl e
      | Inr st1 \<Rightarrow>
          (case create_scripts lib st1 of
             Inl e \<Rightarrow> Inl e
           | Inr st2 \<Rightarrow>
               (case write_pep376_record lib st2 of
                  Inl e \<Rightarrow> Inl e
                | Inr st3 \<Rightarrow>
                    (case write_index lib st3 of
                       Inl e \<Rightarrow> Inl e
                     | Inr st4 \<Rightarrow> Inr (write_files_list (write_has_prefix_list st4))))))"

subsection \<open>Checking the wheel\<close>

text \<open>
  The loop of \<^verbatim>\<open>check\<close> over the top-level entries, with \<open>dist_info\<close> and
  \<open>data_dir\<close> as found so far.
\<close>

fun check_loop ::
  "node list \<Rightarrow> node option \<Rightarrow> node option \<Rightarrow> error + node option \<times> node option" where
  "check_loop [] dist_info data_dir = Inr (dist_info, data_dir)"
| "check_loop (x # xs) dist_info data_dir =
     (case (if endswith (node_name x) ''.dist-info''
            then (if \<not> is_Dir x then Inl (BadWheelError ''.dist-info not a directory'')
                  else if dist_info \<noteq> None then Inl (BadWheelError ''Multiple .dist-info directories'')
                  else Inr (Some x))
            else Inr dist_info) of
        Inl e \<Rightarrow> Inl e
      | Inr dist_info1 \<Rightarrow>
          if endswith (node_name x) ''.data''
          then (if \<not> is_Dir x then Inl (BadWheelError ''.data not a directory'')
                else if data_dir \<noteq> None then Inl (BadWheelError ''Multiple .data directories'')
                else check_loop xs dist_info1 (Some x))
          else check_loop xs dist_info1 data_dir)"

fun check_fields :: "WheelContents \<Rightarrow> string list \<Rightarrow> error + unit" where
  "check_fields wc [] = Inr ()"
| "check_fields wc (field # rest) =
     (if metadata wc field = None
      then Inl (BadWheelError (''Missing required metadata field: '' @ field))
      else check_fields wc rest)"

definition check :: "WheelContents \<Rightarrow> error + unit" where
  "check wc =
     (case check_loop (unpacked wc) None None of
        Inl e \<Rightarrow> Inl e
      | Inr (dist_info, data_dir) \<Rightarrow>
          (case dist_info of
             None \<Rightarrow> Inl (BadWheelError ''Didn't find .dist-info directory'')
           | Some d \<Rightarrow>
               (case read_metadata d ''WHEEL'' of
                  Inl e \<Rightarrow> Inl e
                | Inr wheel_metadata \<Rightarrow>
                    (case first_value wheel_metadata ''Wheel-Version'' of
                       Inl e \<Rightarrow> Inl e
                     | Inr v \<Rightarrow>
                         if v \<noteq> ''1.0''
                         then Inl (BadWheelError ''wheel2conda only knows about wheel format 1.0'')
                         else (case first_value wheel_metadata ''Root-Is-Purelib'' of
                                 Inl e \<Rightarrow> Inl e
                               | Inr p \<Rightarrow>
                                   if lower p \<noteq> ''true''
                                   then Inl (BadWheelError
                                               ''Can't currently autoconvert packages with platlib'')
                                   else check_fields wc [''Name'', ''Version''])))))"

subsection \<open>Compatible Python versions\<close>

text \<open>The second half of \<^verbatim>\<open>filter_compatible_pythons\<close>: the tags of the WHEEL file.\<close>

definition filter_by_tags :: "WheelContents \<Rightarrow> error + string list" where
  "filter_by_tags wc =
     (case find_dist_info wc of
        Inl e \<Rightarrow> Inl e
      | Inr d \<Rightarrow>
          (case read_metadata d ''WHEEL'' of
             Inl e \<Rightarrow> Inl e
           | Inr wheel_metadata \<Rightarrow>
               (case wheel_metadata ''Tag'' of
                  None \<Rightarrow> Inl (KeyError ''Tag'')
                | Some tags \<Rightarrow>
                    let py_tags = set (map (\<lambda>t. split (CHR ''-'') t ! 0) tags)
                    in if py_tags = {''py3''}
                       then Inr (filter (\<lambda>p. \<not> startswith p ''2.'') PYTHON_VERSIONS)
                       else if py_tags = {''py2''}
                       then Inr (filter (\<lambda>p. startswith p ''2.'') PYTHON_VERSIONS)
                       else Inr PYTHON_VERSIONS)))"

definition filter_compatible_pythons :: "WheelContents \<Rightarrow> error + string list" where
  "filter_compatible_pythons wc =
     (case metadata wc ''Requires-Python'' of
        None \<Rightarrow> filter_by_tags wc
      | Some vs \<Rightarrow>
          (case vs of
             [] \<Rightarrow> Inl IndexError
           | rp # rest \<Rightarrow>
               if startswith rp ''3'' \<or> startswith rp ''>3'' \<or> startswith rp ''>=3''
               then Inr (filter (\<lambda>p. \<not> startswith p ''2.'') PYTHON_VERSIONS)
               else if rp = ''<3'' \<or> rp = ''<3.0''
               then Inr (filter (\<lambda>p. startswith p ''2.'') PYTHON_VERSIONS)
               else filter_by_tags wc))"

subsection \<open>main\<close>

text \<open>
  What a run leaves on the disk, in order: a directory made (or found), an archive written
  and closed, or a file opened for an archive whose build raised an exception.
\<close>

datatype event =
    Mkdir string
  | Written string string "tarinfo list"
  | Unfinished string string

text \<open>The inner loop over the Python versions, for one platform and bitness.\<close>

fun build_versions ::
  "library \<Rightarrow> WheelContents \<Rightarrow> Platform \<Rightarrow> string \<Rightarrow> string list \<Rightarrow> event list
   \<Rightarrow> error option \<times> event list" where
  "build_versions lib wc pf bits [] log = (None, log)"
| "build_versions lib wc pf bits (py_version # vs) log =
     (let d = Platform_name pf @ ''-'' @ bits;
          pb = PackageBuilder_init wc py_version pf bits
      in case first_value (metadata wc) ''Name'' of
           Inl e \<Rightarrow> (Some e, log)
         | Inr name \<Rightarrow>
             (case first_value (metadata wc) ''Version'' of
                Inl e \<Rightarrow> (Some e, log)
              | Inr version \<Rightarrow>
                  let filename = name @ ''-'' @ version @ ''-py''
                                 @ remove_char (CHR ''.'') py_version @ ''_0.tar.bz2''
                  in (case build lib pb of
                        Inl e \<Rightarrow> (Some e, log @ [Unfinished d filename])
                      | Inr st \<Rightarrow>
                          build_versions lib wc pf bits vs (log @ [Written d filename (snd st)]))))"

fun main_loop ::
  "library \<Rightarrow> WheelContents \<Rightarrow> (Platform \<times> string) list \<Rightarrow> event list
   \<Rightarrow> error option \<times> event list" where
  "main_loop lib wc [] log = (None, log)"
| "main_loop lib wc ((pf, bits) # pairs) log =
     (let log1 = log @ [Mkdir (Platform_name pf @ ''-'' @ bits)]
      in case filter_compatible_pythons wc of
           Inl e \<Rightarrow> (Some e, log1)
         | Inr versions \<Rightarrow>
             (case build_versions lib wc pf bits versions log1 of
                (Some e, log2) \<Rightarrow> (Some e, log2)
              | (None, log2) \<Rightarrow> main_loop lib wc pairs log2))"

definition main :: "library \<Rightarrow> node list \<Rightarrow> error option \<times> event list" where
  "main lib tree =
     (case WheelContents_init tree of
        Inl e \<Rightarrow> (Some e, [])
      | Inr wc \<Rightarrow>
          (case check wc of
             Inl e \<Rightarrow> (Some e, [])
           | Inr u \<Rightarrow> main_loop lib wc PLATFORM_PAIRS []))"

subsection \<open>An example wheel\<close>

text \<open>
  The wheel of the package \<open>Foo\<close>, version 1.0: a package \<open>pkgmod\<close>, one console
  script \<open>Foo = pkgmod:main\<close> and one data file. The library of the examples reads and
  writes rows without quoting, writes a string between double quotes without escapes, and
  knows the two \<^verbatim>\<open>entry_points.txt\<close> of the examples; on these inputs that is what
  \<^verbatim>\<open>csv\<close>, \<^verbatim>\<open>json\<close> and \<^verbatim>\<open>configparser\<close> do. Its digest is a stand-in, 32
  zero bytes whatever the input, and its launchers are four bytes long.
\<close>

definition example_entry_points :: string where
  "example_entry_points = ''[console_scripts]'' @ [CHR 0x0A] @ ''Foo = pkgmod:main'' @ [CHR 0x0A]"

definition example_bad_entry_points :: string where
  "example_bad_entry_points = ''[console_scripts]'' @ [CHR 0x0A] @ ''foo = badvalue'' @ [CHR 0x0A]"

definition example_library :: library where
  "example_library =
     \<lparr>sha256 = (\<lambda>b. replicate 32 (CHR 0x00)),
      find_exe = (\<lambda>arch. if arch = ''x64'' then ''MZ64'' else ''MZ32''),
      csv_reader = (\<lambda>text. map (split (CHR '','')) (text_lines text)),
      csv_writerow = (\<lambda>row. str_join '','' row @ [CHR 0x0D, CHR 0x0A]),
      json_string = (\<lambda>s. [CHR 0x22] @ s @ [CHR 0x22]),
      ini_sections = (\<lambda>text. if text = example_entry_points
                               then Inr [(''console_scripts'', [(''Foo'', ''pkgmod:main'')])]
                               else if text = example_bad_entry_points
                               then Inr [(''console_scripts'', [(''foo'', ''badvalue'')])]
                               else Inl ParsingError)\<rparr>"

definition example_dist_info :: "string \<Rightarrow> string \<Rightarrow> node" where
  "example_dist_info wheel_version entry_points =
     Dir ''Foo-1.0.dist-info''
       [File ''METADATA'' (''Name: Foo'' @ [CHR 0x0A] @ ''Version: 1.0'' @ [CHR 0x0A]),
        File ''WHEEL'' (''Wheel-Version: '' @ wheel_version @ [CHR 0x0A]
                        @ ''Root-Is-Purelib: true'' @ [CHR 0x0A]
                        @ ''Tag: py2-none-any'' @ [CHR 0x0A]
                        @ ''Tag: py3-none-any'' @ [CHR 0x0A]),
        File ''entry_points.txt'' entry_points,
        File ''RECORD'' (''pkgmod/__init__.py,sha256=abc,5'' @ [CHR 0x0A]
                         @ ''Foo-1.0.data/data/share/x.txt,,'' @ [CHR 0x0A])]"

definition example_tree :: "string \<Rightarrow> string \<Rightarrow> node list" where
  "example_tree wheel_version entry_points =
     [Dir ''pkgmod'' [File ''__init__.py'' ''x = 1''],
      example_dist_info wheel_version entry_points,
      Dir ''Foo-1.0.data'' [Dir ''data'' [Dir ''share'' [File ''x.txt'' ''hello'']]]]"

definition example_wheel :: WheelContents where
  "example_wheel =
     \<lparr>unpacked = example_tree ''1.0'' example_entry_points,
      metadata = [''Name'' \<mapsto> [''Foo''], ''Version'' \<mapsto> [''1.0'']]\<rparr>"



text \<open>The builder of the example for Python 3.5 on 64-bit Linux, after \<^verbatim>\<open>create_scripts\<close>
  has written the launcher (the files of the module left out).\<close>

definition example_builder :: PackageBuilder where
  "example_builder =
     (PackageBuilder_init example_wheel ''3.5'' linux ''64'')
       \<lparr>files := [''bin/foo''], has_prefix_files := [''bin/foo''],
        py_record_extra := [(''bin/foo'', ''sha256=AAAAAAAAAAAAAAAAAAAAAAAAAAAAAAAAAAAAAAAAAAA'', 108)]\<rparr>"

subsection \<open>Notions for the statements\<close>

text \<open>The paths that \<^verbatim>\<open>record_file_or_dir\<close> records, in order.\<close>

definition recorded_paths :: "string \<Rightarrow> node \<Rightarrow> string list" where
  "recorded_paths arcname src =
     (if is_Dir src
      then concat (map (\<lambda>(segs, filenames).
                          map (\<lambda>f. normpath (posixpath_join arcname [relpath segs, f])) filenames)
                       (walk [] src))
      else [arcname])"

text \<open>
  Two builders for the same wheel and target: they differ at most in the lists
  \<open>files\<close>, \<open>has_prefix_files\<close> and \<open>py_record_extra\<close>.
\<close>

definition same_target :: "PackageBuilder \<Rightarrow> PackageBuilder \<Rightarrow> bool" where
  "same_target b b' =
     (wheel_contents b' = wheel_contents b \<and> python_version b' = python_version b
      \<and> platform b' = platform b \<and> bitness b' = bitness b \<and> build_no b' = build_no b)"

text \<open>The names of the regular files among the members of an archive.\<close>

definition file_names :: "tarinfo list \<Rightarrow> string list" where
  "file_names tf = map ti_name (filter (\<lambda>ti. \<not> ti_isdir ti) tf)"

text \<open>
  The files of a tree whose root has the path \<open>ps\<close> (a list of segments): for every regular
  file the segments from the root to it, joined by slashes.
\<close>

fun tree_files :: "string list \<Rightarrow> node \<Rightarrow> string list" where
  "tree_files ps (File n c) = [str_join ''/'' ps]"
| "tree_files ps (Dir n cs) = concat (map (\<lambda>c. tree_files (ps @ [node_name c]) c) cs)"

text \<open>The paths recorded for a directory, with the walk started at the segments \<open>segs\<close>.\<close>

definition walk_paths :: "string \<Rightarrow> string list \<Rightarrow> node \<Rightarrow> string list" where
  "walk_paths arcname segs src =
     concat (map (\<lambda>(s, filenames).
                    map (\<lambda>f. normpath (posixpath_join arcname [relpath s, f])) filenames)
                 (walk segs src))"

text \<open>
  No name in the tree ends in \<open>RECORD\<close>; and, for the \<open>.dist-info\<close> directory: apart from
  an entry \<open>RECORD\<close> itself, no name below it ends in \<open>RECORD\<close>.
\<close>

fun record_free :: "node \<Rightarrow> bool" where
  "record_free (File n c) = (\<not> endswith n ''RECORD'')"
| "record_free (Dir n cs) = (\<not> endswith n ''RECORD'' \<and> list_all record_free cs)"

definition only_record :: "node \<Rightarrow> bool" where
  "only_record d =
     (case d of
        File n c \<Rightarrow> True
      | Dir n cs \<Rightarrow> list_all (\<lambda>c. node_name c = ''RECORD'' \<or> record_free c) cs)"

section \<open>Properties\<close>

subsection \<open>Recording files\<close>

lemma record_file_simps:
  "files (record_file b p flag) = files b @ [p]"
  "has_prefix_files (record_file b p flag) = has_prefix_files b @ (if flag then [p] else [])"
  "py_record_extra (record_file b p flag) = py_record_extra b"
  "platform (record_file b p flag) = platform b"
  "bitness (record_file b p flag) = bitness b"
  "python_version (record_file b p flag) = python_version b"
  "wheel_contents (record_file b p flag) = wheel_contents b"
  "build_no (record_file b p flag) = build_no b"
  by (simp_all add: record_file_def Let_def)

lemma fold_record_file_has_prefix:
  "has_prefix_files (fold (\<lambda>(p, flag) b. record_file b p flag) calls b)
     = has_prefix_files b @ map fst (filter snd calls)"
  by (induction calls arbitrary: b) (auto simp: record_file_simps)

text \<open>
  Claim C6. Take a new builder and any sequence of calls of \<^verbatim>\<open>record_file\<close>, each
  with a path and the flag \<^verbatim>\<open>has_prefix\<close>. Then \<^verbatim>\<open>write_has_prefix_list\<close> appends
  to the archive the member \<^verbatim>\<open>info/has_prefix\<close>, whose lines are, in the order of the
  calls, one line \<open>/opt/anaconda1anaconda2anaconda3 text <path>\<close> for each call with the
  flag set, the path as it was given, and no line for a call without the flag.
\<close>

theorem has_prefix_list_lines:
  "write_has_prefix_list
     (fold (\<lambda>(path, flag) b. record_file b path flag) calls (PackageBuilder_init wc pv pf bits), tf)
   = (fold (\<lambda>(path, flag) b. record_file b path flag) calls (PackageBuilder_init wc pv pf bits),
      tf @ [\<lparr>ti_name = ''info/has_prefix'', ti_isdir = False,
              ti_data = str_join [CHR 0x0A]
                          (map (\<lambda>path. ''/opt/anaconda1anaconda2anaconda3 text '' @ path)
                               (map fst (filter snd calls)))\<rparr>])"
  by (simp add: write_has_prefix_list_def addfile_def fold_record_file_has_prefix
      PackageBuilder_init_def PREFIX_def)

subsection \<open>The index\<close>

lemma sort_index_items:
  "sort_key fst [(''arch'', a), (''build'', b), (''build_number'', c), (''depends'', d),
                 (''license'', e), (''name'', f), (''platform'', g), (''subdir'', h),
                 (''version'', i :: json)]
   = [(''arch'', a), (''build'', b), (''build_number'', c), (''depends'', d),
      (''license'', e), (''name'', f), (''platform'', g), (''subdir'', h), (''version'', i)]"
  by (simp add: less_eq_char_def less_char_def)

lemma str_nat_0: "str_nat 0 = ''0''"
  by code_simp

lemma str_nat_108: "str_nat 108 = ''108''"
  by code_simp

text \<open>
  Claim C5. For a builder as \<^verbatim>\<open>PackageBuilder\<close> makes it, of a wheel whose metadata has
  a name and a version, \<^verbatim>\<open>write_index\<close> appends the member \<^verbatim>\<open>info/index.json\<close>;
  its text has the keys in sorted order: \<open>arch\<close> (\<open>x86_64\<close> when the bitness is \<open>64\<close>,
  else \<open>x86\<close>), \<open>build\<close> (\<open>py\<close>, the Python version without its dots, \<open>_0\<close>),
  \<open>build_number\<close> (0), \<open>depends\<close> (the one entry \<open>python <version>*\<close>), \<open>license\<close>
  (\<open>UNKNOWN\<close>), \<open>name\<close> and \<open>version\<close> (the first values of the metadata),
  \<open>platform\<close> (the platform's name) and \<open>subdir\<close> (platform, a dash, bitness).
\<close>

theorem write_index_record:
  assumes "metadata wc ''Name'' = Some (name # names)"
    and "metadata wc ''Version'' = Some (version # versions)"
  shows "write_index lib (PackageBuilder_init wc pv pf bits, tf) =
    Inr (PackageBuilder_init wc pv pf bits,
         tf @ [\<lparr>ti_name = ''info/index.json'', ti_isdir = False, ti_data =
           ''{'' @ [CHR 0x0A] @
           ''  '' @ json_string lib ''arch'' @ '': ''
                 @ json_string lib (if bits = ''64'' then ''x86_64'' else ''x86'') @ '','' @ [CHR 0x0A] @
           ''  '' @ json_string lib ''build'' @ '': ''
                 @ json_string lib (''py'' @ remove_char (CHR ''.'') pv @ ''_0'') @ '','' @ [CHR 0x0A] @
           ''  '' @ json_string lib ''build_number'' @ '': 0,'' @ [CHR 0x0A] @
           ''  '' @ json_string lib ''depends'' @ '': ['' @ [CHR 0x0A] @
           ''    '' @ json_string lib (''python '' @ pv @ ''*'') @ [CHR 0x0A] @
           ''  ],'' @ [CHR 0x0A] @
           ''  '' @ json_string lib ''license'' @ '': '' @ json_string lib ''UNKNOWN'' @ '','' @ [CHR 0x0A] @
           ''  '' @ json_string lib ''name'' @ '': '' @ json_string lib name @ '','' @ [CHR 0x0A] @
           ''  '' @ json_string lib ''platform'' @ '': ''
                 @ json_string lib (Platform_name pf) @ '','' @ [CHR 0x0A] @
           ''  '' @ json_string lib ''subdir'' @ '': ''
                 @ json_string lib (Platform_name pf @ ''-'' @ bits) @ '','' @ [CHR 0x0A] @
           ''  '' @ json_string lib ''version'' @ '': '' @ json_string lib version @ [CHR 0x0A] @
           ''}''\<rparr>])"
proof -
  let ?b = "PackageBuilder_init wc pv pf bits"
  have ix: "index_dict ?b =
    Inr [(''arch'', JString (if bits = ''64'' then ''x86_64'' else ''x86'')),
         (''build'', JString (''py'' @ remove_char (CHR ''.'') pv @ ''_0'')),
         (''build_number'', JInt 0),
         (''depends'', JList [JString (''python '' @ pv @ ''*'')]),
         (''license'', JString ''UNKNOWN''),
         (''name'', JString name),
         (''platform'', JString (Platform_name pf)),
         (''subdir'', JString (Platform_name pf @ ''-'' @ bits)),
         (''version'', JString version)]"
    using assms by (simp add: index_dict_def first_value_def PackageBuilder_init_def Let_def str_nat_0)
  show ?thesis
    unfolding write_index_def
    by (simp add: ix json_dumps_def sort_index_items newline_indent_def addfile_def
        numeral_2_eq_2 str_nat_0 del: sort_key_simps)
qed

theorem write_index_record_witness:
  \<open>metadata example_wheel ''Name'' = Some [''Foo'']
   \<and> metadata example_wheel ''Version'' = Some [''1.0'']
   \<and> write_index example_library (PackageBuilder_init example_wheel ''3.5'' linux ''64'', [])
       = Inr (PackageBuilder_init example_wheel ''3.5'' linux ''64'',
              [\<lparr>ti_name = ''info/index.json'', ti_isdir = False,
                ti_data = ''{'' @ [CHR 0x0A]
                  @ ''  "arch": "x86_64",'' @ [CHR 0x0A]
                  @ ''  "build": "py35_0",'' @ [CHR 0x0A]
                  @ ''  "build_number": 0,'' @ [CHR 0x0A]
                  @ ''  "depends": ['' @ [CHR 0x0A]
                  @ ''    "python 3.5*"'' @ [CHR 0x0A]
                  @ ''  ],'' @ [CHR 0x0A]
                  @ ''  "license": "UNKNOWN",'' @ [CHR 0x0A]
                  @ ''  "name": "Foo",'' @ [CHR 0x0A]
                  @ ''  "platform": "linux",'' @ [CHR 0x0A]
                  @ ''  "subdir": "linux-64",'' @ [CHR 0x0A]
                  @ ''  "version": "1.0"'' @ [CHR 0x0A]
                  @ ''}''\<rparr>])\<close>
  using write_index_record [of example_wheel "''Foo''" "[]" "''1.0''" "[]"
      example_library "''3.5''" linux "''64''" "[]"]
  by (simp add: example_wheel_def example_library_def remove_char_def)

subsection \<open>Compatible Python versions\<close>





subsection \<open>Checking the wheel\<close>



subsection \<open>Launcher scripts\<close>

lemma split_not_Nil [simp]: "split c s \<noteq> []"
  by (induction s) (auto split: list.splits)

lemma split_no_sep: "c \<notin> set s \<Longrightarrow> split c s = [s]"
  by (induction s) auto

lemma count_list_0_iff: "count_list s c = 0 \<longleftrightarrow> c \<notin> set s"
  by (induction s) auto

lemma split_count1:
  "count_list s c = 1 \<Longrightarrow>
     split c s = [takeWhile (\<lambda>x. x \<noteq> c) s, tl (dropWhile (\<lambda>x. x \<noteq> c) s)]"
proof (induction s)
  case Nil
  then show ?case by simp
next
  case (Cons x xs)
  show ?case
  proof (cases "x = c")
    case True
    with Cons.prems have "c \<notin> set xs" by (simp add: count_list_0_iff)
    with True show ?thesis by (simp add: split_no_sep)
  next
    case False
    with Cons show ?thesis by simp
  qed
qed

lemma create_scripts_loop_step:
  assumes "count_list ep (CHR '':'') = 1"
  shows "create_scripts_loop lib ((name, ep) # rest) st =
           create_scripts_loop lib rest
             (if platform (fst st) = win
              then write_script_windows lib st name
                     (script_template (PREFIX @ ''/bin/python'')
                        (takeWhile (\<lambda>x. x \<noteq> CHR '':'') ep) (tl (dropWhile (\<lambda>x. x \<noteq> CHR '':'') ep)))
              else write_script_unix lib st name
                     (script_template (PREFIX @ ''/bin/python'')
                        (takeWhile (\<lambda>x. x \<noteq> CHR '':'') ep) (tl (dropWhile (\<lambda>x. x \<noteq> CHR '':'') ep))))"
  using assms by (simp add: split_count1 Let_def)


lemma example_digest:
  "rstrip_eq (urlsafe_b64encode (sha256 example_library cont))
     = ''AAAAAAAAAAAAAAAAAAAAAAAAAAAAAAAAAAAAAAAAAAA''"
proof -
  have "rstrip_eq (urlsafe_b64encode (replicate 32 (CHR 0x00)))
          = ''AAAAAAAAAAAAAAAAAAAAAAAAAAAAAAAAAAAAAAAAAAA''"
    by code_simp
  then show ?thesis by (simp add: example_library_def)
qed


lemma record_file_unflagged: "record_file b p False = b\<lparr>files := files b @ [p]\<rparr>"
  by (simp add: record_file_def)

lemma fold_record_file_names:
  "fold (\<lambda>f b2. record_file b2 (g f) False) fns b = b\<lparr>files := files b @ map g fns\<rparr>"
  by (induction fns arbitrary: b) (simp_all add: record_file_unflagged)

lemma fold_record_dirs:
  "fold (\<lambda>(segs, filenames) b1. fold (\<lambda>f b2. record_file b2 (g segs f) False) filenames b1) ws b
     = b\<lparr>files := files b @ concat (map (\<lambda>(segs, filenames). map (g segs) filenames) ws)\<rparr>"
  by (induction ws arbitrary: b) (auto simp: fold_record_file_names)

lemma record_file_or_dir_files:
  "record_file_or_dir b arcname src = b\<lparr>files := files b @ recorded_paths arcname src\<rparr>"
proof (cases "is_Dir src")
  case True
  then show ?thesis
    unfolding record_file_or_dir_def recorded_paths_def
    using fold_record_dirs [of "\<lambda>segs f. normpath (posixpath_join arcname [relpath segs, f])"]
    by (simp del: posixpath_join.simps)
next
  case False
  then show ?thesis
    by (simp add: record_file_or_dir_def recorded_paths_def record_file_unflagged)
qed

lemma same_target_refl [simp]: "same_target b b"
  by (simp add: same_target_def)

lemma same_target_trans: "same_target a b \<Longrightarrow> same_target b c \<Longrightarrow> same_target a c"
  by (simp add: same_target_def)

lemma same_target_record [simp]: "same_target b (record_file_or_dir b a src)"
  by (simp add: record_file_or_dir_files same_target_def)

lemma fold_add_data_file_target: "same_target (fst st) (fst (fold add_data_file fs st))"
proof (induction fs arbitrary: st)
  case Nil
  then show ?case by simp
next
  case (Cons f fs)
  obtain b tf where st: "st = (b, tf)" by (cases st)
  have "same_target b (fst (add_data_file f st))"
    by (simp add: st add_data_file_def)
  with Cons [of "add_data_file f st"] show ?case
    by (auto simp: st intro: same_target_trans)
qed

lemma add_data_dir_loop_target:
  "add_data_dir_loop ds st = Inr st' \<Longrightarrow> same_target (fst st) (fst st')"
proof (induction ds arbitrary: st)
  case Nil
  then show ?case by simp
next
  case (Cons d ds)
  show ?case
  proof (cases d)
    case (File n c)
    with Cons.prems show ?thesis by (simp split: if_splits)
  next
    case (Dir n fs)
    with Cons.prems have "add_data_dir_loop ds (fold add_data_file fs st) = Inr st'"
      by (simp split: if_splits)
    from Cons.IH [OF this] fold_add_data_file_target [of st fs] show ?thesis
      by (blast intro: same_target_trans)
  qed
qed

lemma add_module_loop_target:
  "add_module_loop xs st = Inr st' \<Longrightarrow> same_target (fst st) (fst st')"
proof (induction xs arbitrary: st)
  case Nil
  then show ?case by simp
next
  case (Cons src rest)
  obtain b tf where st: "st = (b, tf)" by (cases st)
  show ?case
  proof (cases "endswith (node_name src) ''.data''")
    case True
    with Cons.prems st obtain st1 where 1: "add_data_dir src st = Inr st1"
      and 2: "add_module_loop rest st1 = Inr st'"
      by (auto split: sum.splits)
    from 1 have "same_target (fst st) (fst st1)"
      by (auto simp: add_data_dir_def split: node.splits dest: add_data_dir_loop_target)
    with Cons.IH [OF 2] show ?thesis by (blast intro: same_target_trans)
  next
    case False
    with Cons.prems st obtain flt where
      "add_module_loop rest (record_file_or_dir b (site_packages_path b @ node_name src) src,
         tf @ tar_members flt src (site_packages_path b @ node_name src)) = Inr st'"
      by (auto simp: Let_def split: if_splits)
    from Cons.IH [OF this]
    have "same_target (record_file_or_dir b (site_packages_path b @ node_name src) src) (fst st')"
      by simp
    with same_target_record [of b "site_packages_path b @ node_name src" src]
    show ?thesis
      unfolding st fst_conv by (rule same_target_trans)
  qed
qed

lemma add_module_target: "add_module (b, tf) = Inr st \<Longrightarrow> same_target b (fst st)"
  using add_module_loop_target [of _ "(b, tf)" st] by (simp add: add_module_def)










lemma rstrip_eq_unpadded: "\<not> endswith (rstrip_eq s) ''=''"
proof -
  have "dropWhile (\<lambda>c. c = CHR ''='') xs = [] \<or> hd (dropWhile (\<lambda>c. c = CHR ''='') xs) \<noteq> CHR ''=''" for xs
    using hd_dropWhile [of "\<lambda>c. c = CHR ''=''" xs] by blast
  then have "rstrip_eq s = [] \<or> last (rstrip_eq s) \<noteq> CHR ''=''"
    unfolding rstrip_eq_def by (metis last_rev rev_is_Nil_conv)
  then show ?thesis
    by (cases "rstrip_eq s" rule: rev_cases) (auto simp: endswith_def)
qed

text \<open>
  Claim C9. On the platform \<open>win\<close>, an entry point \<open>name\<close> with one colon adds two
  members to the archive: \<open>Scripts/<name>-script.py\<close> with the script, and
  \<open>Scripts/<name>.exe\<close> with the bytes of the launcher for \<open>x64\<close> when the bitness is
  \<open>64\<close> and for \<open>x86\<close> otherwise. Both are recorded as files, only the script as a file
  with the prefix, and each gets a row for RECORD: its path, \<open>sha256=\<close> followed by the
  URL-safe base64 text of the digest of its bytes without the padding, and the number of
  its bytes.
\<close>

theorem windows_launcher_pair:
  assumes "platform b = win" and "count_list ep (CHR '':'') = 1"
  shows "create_scripts_loop lib ((name, ep) # rest) (b, tf) =
           create_scripts_loop lib rest
             (b\<lparr>files := files b @ [''Scripts/'' @ name @ ''-script.py'', ''Scripts/'' @ name @ ''.exe''],
                has_prefix_files := has_prefix_files b @ [''Scripts/'' @ name @ ''-script.py''],
                py_record_extra := py_record_extra b @
                  [(''Scripts/'' @ name @ ''-script.py'',
                    ''sha256='' @ rstrip_eq (urlsafe_b64encode (sha256 lib
                       (script_template ''/opt/anaconda1anaconda2anaconda3/bin/python''
                          (takeWhile (\<lambda>x. x \<noteq> CHR '':'') ep) (tl (dropWhile (\<lambda>x. x \<noteq> CHR '':'') ep))))),
                    length (script_template ''/opt/anaconda1anaconda2anaconda3/bin/python''
                          (takeWhile (\<lambda>x. x \<noteq> CHR '':'') ep) (tl (dropWhile (\<lambda>x. x \<noteq> CHR '':'') ep)))),
                   (''Scripts/'' @ name @ ''.exe'',
                    ''sha256='' @ rstrip_eq (urlsafe_b64encode (sha256 lib
                       (find_exe lib (if bitness b = ''64'' then ''x64'' else ''x86'')))),
                    length (find_exe lib (if bitness b = ''64'' then ''x64'' else ''x86'')))]\<rparr>,
              tf @ [\<lparr>ti_name = ''Scripts/'' @ name @ ''-script.py'', ti_isdir = False,
                      ti_data = script_template ''/opt/anaconda1anaconda2anaconda3/bin/python''
                          (takeWhile (\<lambda>x. x \<noteq> CHR '':'') ep) (tl (dropWhile (\<lambda>x. x \<noteq> CHR '':'') ep))\<rparr>,
                    \<lparr>ti_name = ''Scripts/'' @ name @ ''.exe'', ti_isdir = False,
                      ti_data = find_exe lib (if bitness b = ''64'' then ''x64'' else ''x86'')\<rparr>])
         \<and> \<not> endswith (rstrip_eq (urlsafe_b64encode (sha256 lib
                       (find_exe lib (if bitness b = ''64'' then ''x64'' else ''x86''))))) ''=''"
proof -
  let ?s = "script_template ''/opt/anaconda1anaconda2anaconda3/bin/python''
              (takeWhile (\<lambda>x. x \<noteq> CHR '':'') ep) (tl (dropWhile (\<lambda>x. x \<noteq> CHR '':'') ep))"
  let ?exe = "find_exe lib (if bitness b = ''64'' then ''x64'' else ''x86'')"
  have w: "write_script_windows lib (b, tf) name ?s =
             (b\<lparr>files := files b @ [''Scripts/'' @ name @ ''-script.py'', ''Scripts/'' @ name @ ''.exe''],
                has_prefix_files := has_prefix_files b @ [''Scripts/'' @ name @ ''-script.py''],
                py_record_extra := py_record_extra b @
                  [(''Scripts/'' @ name @ ''-script.py'',
                    ''sha256='' @ rstrip_eq (urlsafe_b64encode (sha256 lib ?s)), length ?s),
                   (''Scripts/'' @ name @ ''.exe'',
                    ''sha256='' @ rstrip_eq (urlsafe_b64encode (sha256 lib ?exe)), length ?exe)]\<rparr>,
              tf @ [\<lparr>ti_name = ''Scripts/'' @ name @ ''-script.py'', ti_isdir = False, ti_data = ?s\<rparr>,
                    \<lparr>ti_name = ''Scripts/'' @ name @ ''.exe'', ti_isdir = False, ti_data = ?exe\<rparr>])"
    using assms(1)
    by (simp add: write_script_windows_def write_script_unix_def
        scripts_path_def addfile_def record_file_def py_record_file_def Let_def)
  have "create_scripts_loop lib ((name, ep) # rest) (b, tf) =
          create_scripts_loop lib rest (write_script_windows lib (b, tf) name ?s)"
    using assms by (simp add: create_scripts_loop_step PREFIX_def del: create_scripts_loop.simps)
  then show ?thesis
    unfolding w by (simp add: rstrip_eq_unpadded del: create_scripts_loop.simps)
qed

theorem windows_launcher_pair_witness:
  "platform (PackageBuilder_init example_wheel ''3.5'' win ''64'') = win
   \<and> count_list ''pkgmod:main'' (CHR '':'') = 1
   \<and> create_scripts_loop example_library [(''foo'', ''pkgmod:main'')]
        (PackageBuilder_init example_wheel ''3.5'' win ''64'', [])
     = Inr (\<lparr>wheel_contents = example_wheel, python_version = ''3.5'', platform = win,
             bitness = ''64'', files = [''Scripts/foo-script.py'', ''Scripts/foo.exe''],
             has_prefix_files = [''Scripts/foo-script.py''],
             py_record_extra =
               [(''Scripts/foo-script.py'', ''sha256=AAAAAAAAAAAAAAAAAAAAAAAAAAAAAAAAAAAAAAAAAAA'', 108),
                (''Scripts/foo.exe'', ''sha256=AAAAAAAAAAAAAAAAAAAAAAAAAAAAAAAAAAAAAAAAAAA'', 4)],
             build_no = 0\<rparr>,
            [\<lparr>ti_name = ''Scripts/foo-script.py'', ti_isdir = False,
              ti_data = ''#!/opt/anaconda1anaconda2anaconda3/bin/python'' @ [CHR 0x0A]
                 @ ''from pkgmod import main'' @ [CHR 0x0A]
                 @ ''if __name__ == '__main__':'' @ [CHR 0x0A]
                 @ ''    main()'' @ [CHR 0x0A]\<rparr>,
             \<lparr>ti_name = ''Scripts/foo.exe'', ti_isdir = False, ti_data = ''MZ64''\<rparr>])"
proof -
  have a: "platform (PackageBuilder_init example_wheel ''3.5'' win ''64'') = win"
    by (simp add: PackageBuilder_init_def)
  have b: "count_list ''pkgmod:main'' (CHR '':'') = 1" by simp
  have c: "find_exe example_library ''x64'' = ''MZ64''"
    by (simp add: example_library_def)
  show ?thesis
    using a b windows_launcher_pair [OF a b, of example_library "''foo''" "[]" "[]"]
    by (simp add: PackageBuilder_init_def script_template_def example_digest c
        del: create_scripts_loop.simps(2))
qed

text \<open>
  The parser keeps the options of a section in the order of their declaration, each name
  transformed by \<open>optionxform\<close>; and without a file \<^verbatim>\<open>entry_points.txt\<close>,
  \<^verbatim>\<open>create_scripts\<close> does nothing.
\<close>

lemma read_options_order:
  "read_options sect kvs acc = Inr opts \<Longrightarrow>
     opts = acc @ map (\<lambda>(k, v). (optionxform k, v)) kvs"
proof (induction kvs arbitrary: acc)
  case Nil
  then show ?case by simp
next
  case (Cons kv kvs)
  obtain k v where kv: "kv = (k, v)" by (cases kv)
  from Cons.prems have "read_options sect kvs (acc @ [(optionxform k, v)]) = Inr opts"
    by (simp add: kv split: if_splits)
  from Cons.IH [OF this] show ?case by (simp add: kv)
qed

lemma create_scripts_without_entry_points:
  assumes "find_dist_info (wheel_contents (fst st)) = Inr dist_info"
    and "\<not> is_file dist_info ''entry_points.txt''"
  shows "create_scripts lib st = Inr st"
  using assms by (simp add: create_scripts_def)

text \<open>
  Claim C2. The example declares the console script \<open>Foo\<close>; the launcher that
  \<^verbatim>\<open>create_scripts\<close> writes for it is \<open>bin/foo\<close>: the parser has lower-cased the name.
\<close>

theorem console_script_name_lowercased:
  "ini_sections example_library example_entry_points
     = Inr [(''console_scripts'', [(''Foo'', ''pkgmod:main'')])]
   \<and> (case create_scripts example_library (PackageBuilder_init example_wheel ''3.5'' linux ''64'', []) of
         Inl e \<Rightarrow> False
       | Inr (b, tf) \<Rightarrow> map ti_name tf = [''bin/foo''] \<and> files b = [''bin/foo''])"
  by code_simp

subsection \<open>The RECORD file\<close>

lemma endswith_append_no_slash:
  "b \<noteq> [] \<Longrightarrow> CHR ''/'' \<notin> set b \<Longrightarrow> \<not> endswith (a @ b) ''/''"
  by (cases b rule: rev_cases) (auto simp: endswith_def)

lemma startswith_slash: "startswith s ''/'' \<longleftrightarrow> (s \<noteq> [] \<and> hd s = CHR ''/'')"
  by (cases s) (auto simp: startswith_def)

lemma no_slash_not_startswith: "CHR ''/'' \<notin> set s \<Longrightarrow> \<not> startswith s ''/''"
  by (cases s) (auto simp: startswith_def)

lemma posixpath_join_segments:
  assumes "path \<noteq> []" and "\<not> endswith path ''/''"
    and "\<forall>s \<in> set segs. CHR ''/'' \<notin> set s" and "[] \<notin> set (butlast segs)"
  shows "posixpath_join path segs = path @ concat (map (\<lambda>s. ''/'' @ s) segs)"
  using assms
proof (induction segs arbitrary: path)
  case Nil
  then show ?case by simp
next
  case (Cons s segs)
  have ns: "\<not> startswith s ''/''"
    using Cons.prems(3) by (simp add: no_slash_not_startswith)
  show ?case
  proof (cases segs)
    case Nil
    with ns Cons.prems show ?thesis by simp
  next
    case (Cons t ts)
    with Cons.prems(4) have "s \<noteq> []" by auto
    with Cons.prems(3) have e: "\<not> endswith (path @ ''/'' @ s) ''/''"
      using endswith_append_no_slash [of s "path @ ''/''"] by simp
    have "posixpath_join (path @ ''/'' @ s) segs
            = (path @ ''/'' @ s) @ concat (map (\<lambda>s. ''/'' @ s) segs)"
      using Cons.prems(3,4) e local.Cons by (intro Cons.IH) auto
    with ns Cons.prems(1,2) show ?thesis by simp
  qed
qed

lemma str_join_segments:
  "str_join ''/'' (x # xs) = x @ concat (map (\<lambda>s. ''/'' @ s) xs)"
  by (induction xs arbitrary: x) auto

lemma split_no_slash: "\<forall>s \<in> set (split c xs). c \<notin> set s"
proof (induction xs)
  case Nil
  then show ?case by simp
next
  case (Cons x xs)
  then show ?case by (cases "split c xs") auto
qed

lemma rewrite_rows_map:
  assumes "[] \<notin> set rows"
  shows "rewrite_rows pre rows =
           Inr (map (\<lambda>row. let path_parts = split (CHR ''/'') (hd row)
                           in if length path_parts > 2 \<and> endswith (path_parts ! 0) ''.data''
                                 \<and> path_parts ! 1 = ''data''
                              then posixpath_join pre (drop 2 path_parts) # tl row
                              else row) rows)"
  using assms
proof (induction rows)
  case Nil
  then show ?case by simp
next
  case (Cons row rows)
  then obtain path cols where "row = path # cols" by (cases row) auto
  with Cons show ?case by (simp add: rewrite_row_def Let_def)
qed

lemma prefix_from_site_pkgs_plain:
  "prefix_from_site_pkgs b \<noteq> [] \<and> \<not> endswith (prefix_from_site_pkgs b) ''/''"
  by (simp add: prefix_from_site_pkgs_def endswith_def)

text \<open>
  Claim C3. Let every row of the wheel's RECORD have a path, no path have an empty segment
  between its second and its last, and no extra row begin with a slash. Then the rows written
  to the new RECORD are the rows of the wheel's RECORD in order, each unchanged unless its
  path has more than two segments, the first ending in \<open>.data\<close> and the second equal to
  \<open>data\<close>; such a row has these two segments replaced by \<open>../..\<close> on \<open>win\<close> and by
  \<open>../../..\<close> elsewhere, its other columns unchanged. After them comes one row for every
  launcher: the same prefix, a slash and the launcher's path, its hash, its length. The
  text of these rows is the member \<open>RECORD\<close> of the \<open>.dist-info\<close> directory.
\<close>

theorem rewritten_record_rows:
  assumes "find_dist_info (wheel_contents b) = Inr dist_info"
    and "open_read dist_info ''RECORD'' = Inr text"
    and "csv_reader lib text = wheel_record"
    and "[] \<notin> set wheel_record"
    and "\<forall>row \<in> set wheel_record. [] \<notin> set (butlast (drop 2 (split (CHR ''/'') (hd row))))"
    and "\<forall>x \<in> set (py_record_extra b). \<not> startswith (fst x) ''/''"
  shows "installed_record b wheel_record =
           Inr (map (\<lambda>row. let path_parts = split (CHR ''/'') (hd row)
                           in if length path_parts > 2 \<and> endswith (path_parts ! 0) ''.data''
                                 \<and> path_parts ! 1 = ''data''
                              then str_join ''/'' ((if platform b = win then ''../..'' else ''../../..'')
                                                   # drop 2 path_parts) # tl row
                              else row) wheel_record
                @ map (\<lambda>(rel, hash, len).
                         [(if platform b = win then ''../..'' else ''../../..'') @ ''/'' @ rel,
                          hash, str_nat len])
                      (py_record_extra b))
       \<and> (\<exists>rows. installed_record b wheel_record = Inr rows
            \<and> write_pep376_record lib (b, tf) =
                Inr (b, tf @ [\<lparr>ti_name = site_packages_path b @ node_name dist_info @ ''/RECORD'',
                               ti_isdir = False,
                               ti_data = concat (map (csv_writerow lib) rows)\<rparr>]))"
proof -
  let ?pre = "prefix_from_site_pkgs b"
  have pre: "?pre = (if platform b = win then ''../..'' else ''../../..'')"
    by (simp add: prefix_from_site_pkgs_def)
  have seg: "posixpath_join ?pre (drop 2 (split (CHR ''/'') (hd row)))
               = str_join ''/'' (?pre # drop 2 (split (CHR ''/'') (hd row)))"
    if "row \<in> set wheel_record" for row
  proof -
    have "\<forall>s \<in> set (drop 2 (split (CHR ''/'') (hd row))). CHR ''/'' \<notin> set s"
      using split_no_slash [of "CHR ''/''" "hd row"] by (meson in_set_dropD)
    moreover have "[] \<notin> set (butlast (drop 2 (split (CHR ''/'') (hd row))))"
      using assms(5) that by blast
    ultimately show ?thesis
      using prefix_from_site_pkgs_plain [of b]
      by (simp add: posixpath_join_segments str_join_segments)
  qed
  have rows: "rewrite_rows ?pre wheel_record =
           Inr (map (\<lambda>row. let path_parts = split (CHR ''/'') (hd row)
                           in if length path_parts > 2 \<and> endswith (path_parts ! 0) ''.data''
                                 \<and> path_parts ! 1 = ''data''
                              then str_join ''/'' (?pre # drop 2 path_parts) # tl row
                              else row) wheel_record)"
    unfolding rewrite_rows_map [OF assms(4)]
    by (simp add: Let_def seg cong: map_cong)
  have extra: "map (\<lambda>(rel, hash, len). [posixpath_join ?pre [rel], hash, str_nat len]) (py_record_extra b)
             = map (\<lambda>(rel, hash, len). [?pre @ ''/'' @ rel, hash, str_nat len]) (py_record_extra b)"
    using assms(6) prefix_from_site_pkgs_plain [of b]
    by (intro map_cong) auto
  have ir: "installed_record b wheel_record =
           Inr (map (\<lambda>row. let path_parts = split (CHR ''/'') (hd row)
                           in if length path_parts > 2 \<and> endswith (path_parts ! 0) ''.data''
                                 \<and> path_parts ! 1 = ''data''
                              then str_join ''/'' (?pre # drop 2 path_parts) # tl row
                              else row) wheel_record
                @ map (\<lambda>(rel, hash, len). [?pre @ ''/'' @ rel, hash, str_nat len])
                      (py_record_extra b))"
    unfolding installed_record_def rows extra by simp
  have w: "\<exists>rows. installed_record b wheel_record = Inr rows
            \<and> write_pep376_record lib (b, tf) =
                Inr (b, tf @ [\<lparr>ti_name = site_packages_path b @ node_name dist_info @ ''/RECORD'',
                               ti_isdir = False,
                               ti_data = concat (map (csv_writerow lib) rows)\<rparr>])"
    using assms(1-3) ir by (simp add: write_pep376_record_def addfile_def)
  from ir w show ?thesis
    unfolding pre by blast
qed

theorem rewritten_record_rows_witness:
  "csv_reader example_library
      (''pkgmod/__init__.py,sha256=abc,5'' @ [CHR 0x0A] @ ''Foo-1.0.data/data/share/x.txt,,'' @ [CHR 0x0A])
     = [[''pkgmod/__init__.py'', ''sha256=abc'', ''5''], [''Foo-1.0.data/data/share/x.txt'', '''', '''']]
   \<and> installed_record example_builder
        [[''pkgmod/__init__.py'', ''sha256=abc'', ''5''], [''Foo-1.0.data/data/share/x.txt'', '''', '''']]
     = Inr [[''pkgmod/__init__.py'', ''sha256=abc'', ''5''],
            [''../../../share/x.txt'', '''', ''''],
            [''../../../bin/foo'', ''sha256=AAAAAAAAAAAAAAAAAAAAAAAAAAAAAAAAAAAAAAAAAAA'', ''108'']]
   \<and> write_pep376_record example_library (example_builder, [])
     = Inr (example_builder,
            [\<lparr>ti_name = ''lib/python3.5/site-packages/Foo-1.0.dist-info/RECORD'', ti_isdir = False,
              ti_data = ''pkgmod/__init__.py,sha256=abc,5'' @ [CHR 0x0D, CHR 0x0A]
                @ ''../../../share/x.txt,,'' @ [CHR 0x0D, CHR 0x0A]
                @ ''../../../bin/foo,sha256=AAAAAAAAAAAAAAAAAAAAAAAAAAAAAAAAAAAAAAAAAAA,108''
                @ [CHR 0x0D, CHR 0x0A]\<rparr>])"
proof -
  let ?d = "example_dist_info ''1.0'' example_entry_points"
  let ?text = "''pkgmod/__init__.py,sha256=abc,5'' @ [CHR 0x0A]
                 @ ''Foo-1.0.data/data/share/x.txt,,'' @ [CHR 0x0A]"
  let ?rows = "[[''pkgmod/__init__.py'', ''sha256=abc'', ''5''],
                [''Foo-1.0.data/data/share/x.txt'', '''', '''']]"
  have 1: "find_dist_info (wheel_contents example_builder) = Inr ?d"
    by (simp add: example_builder_def PackageBuilder_init_def example_wheel_def find_dist_info_def
        example_tree_def example_dist_info_def endswith_def)
  have 2: "open_read ?d ''RECORD'' = Inr ?text"
    by (simp add: example_dist_info_def open_read_def)
  have 3: "csv_reader example_library ?text = ?rows"
    by (simp add: example_library_def text_lines_def)
  have 4: "[] \<notin> set ?rows" by simp
  have 5: "\<forall>row \<in> set ?rows. [] \<notin> set (butlast (drop 2 (split (CHR ''/'') (hd row))))"
    by simp
  have 6: "\<forall>x \<in> set (py_record_extra example_builder). \<not> startswith (fst x) ''/''"
    by (simp add: example_builder_def startswith_def)
  have 7: "platform example_builder = linux" "python_version example_builder = ''3.5''"
    "py_record_extra example_builder
       = [(''bin/foo'', ''sha256=AAAAAAAAAAAAAAAAAAAAAAAAAAAAAAAAAAAAAAAAAAA'', 108)]"
    by (simp_all add: example_builder_def PackageBuilder_init_def)
  have 8: "node_name ?d = ''Foo-1.0.dist-info''"
    by (simp add: example_dist_info_def)
  from rewritten_record_rows [OF 1 2 3 4 5 6, of "[]"] 3
  show ?thesis
    by (auto simp: 7 8 endswith_def str_nat_108 site_packages_path_def example_library_def)
qed

subsection \<open>Paths\<close>

lemma str_join_Cons: "str_join sep (x # xs) = x @ concat (map (\<lambda>s. sep @ s) xs)"
  by (induction xs arbitrary: x) auto

lemma str_join_snoc: "ps \<noteq> [] \<Longrightarrow> str_join sep (ps @ [n]) = str_join sep ps @ sep @ n"
  by (cases ps) (simp_all add: str_join_Cons)

lemma str_join_append:
  "ps \<noteq> [] \<Longrightarrow> qs \<noteq> [] \<Longrightarrow> str_join sep (ps @ qs) = str_join sep ps @ sep @ str_join sep qs"
  by (cases ps; cases qs) (simp_all add: str_join_Cons)

lemma str_join_not_Nil: "ps \<noteq> [] \<Longrightarrow> hd ps \<noteq> [] \<Longrightarrow> str_join sep ps \<noteq> []"
  by (cases ps) (simp_all add: str_join_Cons)

lemma hd_str_join: "ps \<noteq> [] \<Longrightarrow> hd ps \<noteq> [] \<Longrightarrow> hd (str_join sep ps) = hd (hd ps)"
  by (cases ps) (simp_all add: str_join_Cons)

lemma last_str_join:
  assumes "ps \<noteq> []" and "last ps \<noteq> []"
  shows "last (str_join sep ps) = last (last ps)"
proof (cases ps rule: rev_cases)
  case Nil
  with assms show ?thesis by simp
next
  case (snoc qs n)
  with assms show ?thesis
    by (cases "qs = []") (simp_all add: str_join_snoc)
qed

lemma valid_name_hd: "valid_name n \<Longrightarrow> n \<noteq> [] \<and> hd n \<noteq> CHR ''/''"
  by (cases n) (auto simp: valid_name_def)

lemma valid_name_last: "valid_name n \<Longrightarrow> n \<noteq> [] \<and> last n \<noteq> CHR ''/''"
  by (cases n rule: rev_cases) (auto simp: valid_name_def)

lemma plain_not_Nil:
  assumes "ps \<noteq> []" and "list_all valid_name ps"
  shows "str_join ''/'' ps \<noteq> []"
proof -
  from assms have "valid_name (hd ps)" by (cases ps) auto
  then have "hd ps \<noteq> []" by (simp add: valid_name_hd)
  with assms(1) show ?thesis by (rule str_join_not_Nil)
qed

lemma plain_not_startswith:
  assumes "ps \<noteq> []" and "list_all valid_name ps"
  shows "\<not> startswith (str_join ''/'' ps) ''/''"
proof -
  from assms have "valid_name (hd ps)" by (cases ps) auto
  then have "hd ps \<noteq> []" "hd (hd ps) \<noteq> CHR ''/''" by (auto dest: valid_name_hd)
  with assms(1) show ?thesis
    by (simp add: startswith_slash hd_str_join str_join_not_Nil)
qed

lemma plain_not_endswith:
  assumes "ps \<noteq> []" and "list_all valid_name ps"
  shows "\<not> endswith (str_join ''/'' ps) ''/''"
proof -
  from assms have v: "valid_name (last ps)" by (simp add: list_all_iff)
  then have "last ps \<noteq> []" "last (last ps) \<noteq> CHR ''/''"
    by (auto dest: valid_name_last)
  with assms(1) have "last (str_join ''/'' ps) \<noteq> CHR ''/''"
    by (simp add: last_str_join)
  moreover have "str_join ''/'' ps \<noteq> []" using assms by (rule plain_not_Nil)
  ultimately show ?thesis
    by (cases "str_join ''/'' ps" rule: rev_cases) (auto simp: endswith_def)
qed

lemma lstrip_plain:
  assumes "ps \<noteq> []" and "list_all valid_name ps"
  shows "dropWhile (\<lambda>x. x = CHR ''/'') (str_join ''/'' ps) = str_join ''/'' ps"
proof -
  from plain_not_startswith [OF assms] plain_not_Nil [OF assms]
  have "hd (str_join ''/'' ps) \<noteq> CHR ''/''" by (simp add: startswith_slash)
  with plain_not_Nil [OF assms] show ?thesis
    by (cases "str_join ''/'' ps") auto
qed

lemma join_plain:
  assumes "ps \<noteq> []" and "list_all valid_name ps" and "valid_name n"
  shows "posixpath_join (str_join ''/'' ps) [n] = str_join ''/'' (ps @ [n])"
proof -
  from assms(3) have "\<not> startswith n ''/''"
    by (auto simp: startswith_slash dest: valid_name_hd)
  with plain_not_Nil [OF assms(1,2)] plain_not_endswith [OF assms(1,2)] assms(1)
  show ?thesis by (simp add: str_join_snoc)
qed

lemma split_append:
  "c \<notin> set x \<Longrightarrow> split c (x @ c # r) = x # split c r"
  by (induction x) auto

lemma split_str_join:
  "xs \<noteq> [] \<Longrightarrow> \<forall>s \<in> set xs. c \<notin> set s \<Longrightarrow> split c (str_join [c] xs) = xs"
proof (induction xs rule: induct_list012)
  case 1
  then show ?case by simp
next
  case (2 x)
  then show ?case by (simp add: split_no_sep)
next
  case (3 x y zs)
  then show ?case by (simp add: split_append)
qed

lemma normpath_comps_plain:
  "\<forall>s \<in> set xs. s \<noteq> [] \<and> s \<noteq> ''..'' \<Longrightarrow>
     normpath_comps 0 xs acc = acc @ filter (\<lambda>s. s \<noteq> ''.'') xs"
  by (induction xs arbitrary: acc) auto

lemma valid_name_facts:
  "valid_name n \<Longrightarrow> n \<noteq> [] \<and> n \<noteq> ''.'' \<and> n \<noteq> ''..'' \<and> CHR ''/'' \<notin> set n"
  by (simp add: valid_name_def)

lemma normpath_plain:
  assumes "xs \<noteq> []" and "valid_name (hd xs)"
    and "\<forall>s \<in> set xs. valid_name s \<or> s = ''.''"
  shows "normpath (str_join ''/'' xs) = str_join ''/'' (filter (\<lambda>s. s \<noteq> ''.'') xs)"
proof -
  let ?p = "str_join ''/'' xs"
  obtain x ys where xs: "xs = x # ys" using assms(1) by (cases xs) auto
  with assms(2) have x: "x \<noteq> []" "hd x \<noteq> CHR ''/''" "x \<noteq> ''.''"
    by (auto dest: valid_name_hd valid_name_facts)
  have ne: "?p \<noteq> []" using x by (simp add: xs str_join_Cons)
  have ns: "\<not> startswith ?p ''/''"
    using x by (simp add: xs str_join_Cons startswith_slash)
  have sl: "\<forall>s \<in> set xs. CHR ''/'' \<notin> set s"
    using assms(3) by (auto dest: valid_name_facts)
  have sp: "split (CHR ''/'') ?p = xs"
    using split_str_join [OF assms(1) sl] by simp
  have nn: "\<forall>s \<in> set xs. s \<noteq> [] \<and> s \<noteq> ''..''"
    using assms(3) by (auto dest: valid_name_facts)
  have f: "filter (\<lambda>s. s \<noteq> ''.'') xs = x # filter (\<lambda>s. s \<noteq> ''.'') ys"
    using x by (simp add: xs)
  have "str_join ''/'' (filter (\<lambda>s. s \<noteq> ''.'') xs) \<noteq> []"
    unfolding f using x by (simp add: str_join_Cons)
  then show ?thesis
    using ne ns by (simp add: normpath_def sp normpath_comps_plain [OF nn] Let_def)
qed

lemma endswith_slash: "endswith s ''/'' \<longleftrightarrow> (s \<noteq> [] \<and> last s = CHR ''/'')"
  by (cases s rule: rev_cases) (auto simp: endswith_def)

lemma filter_dot_valid:
  "list_all valid_name xs \<Longrightarrow> filter (\<lambda>s. s \<noteq> ''.'') xs = xs"
  by (induction xs) (auto dest: valid_name_facts)

lemma relpath_facts:
  assumes "list_all valid_name segs"
  shows "relpath segs \<noteq> [] \<and> \<not> startswith (relpath segs) ''/'' \<and> \<not> endswith (relpath segs) ''/''"
proof (cases "segs = []")
  case True
  then show ?thesis by (simp add: relpath_def startswith_def endswith_def)
next
  case False
  with assms show ?thesis
    by (simp add: relpath_def plain_not_Nil plain_not_startswith plain_not_endswith)
qed

lemma recorded_path_plain:
  assumes "ss \<noteq> []" and "list_all valid_name ss" and "list_all valid_name segs"
    and "valid_name f"
  shows "normpath (posixpath_join (str_join ''/'' ss) [relpath segs, f])
           = str_join ''/'' (ss @ segs @ [f])"
proof -
  let ?a = "str_join ''/'' ss"
  let ?r = "relpath segs"
  let ?xs = "ss @ (if segs = [] then [''.''] else segs) @ [f]"
  have f: "\<not> startswith f ''/''"
    using assms(4) by (auto simp: startswith_slash dest: valid_name_hd)
  have "posixpath_join ?a [?r, f] = ?a @ ''/'' @ ?r @ ''/'' @ f"
    using relpath_facts [OF assms(3)] plain_not_Nil [OF assms(1,2)]
      plain_not_endswith [OF assms(1,2)] f
    by (auto simp: endswith_slash)
  also have "\<dots> = str_join ''/'' ?xs"
    using assms(1) by (simp add: relpath_def str_join_append str_join_snoc)
  finally have j: "posixpath_join ?a [?r, f] = str_join ''/'' ?xs" .
  have 1: "?xs \<noteq> []" by simp
  have 2: "valid_name (hd ?xs)" using assms(1,2) by (cases ss) auto
  have 3: "\<forall>s \<in> set ?xs. valid_name s \<or> s = ''.''"
    using assms(2-4) by (auto simp: list_all_iff)
  have 4: "filter (\<lambda>s. s \<noteq> ''.'') ?xs = ss @ segs @ [f]"
    using assms(2-4) valid_name_facts [OF assms(4)] by (simp add: filter_dot_valid)
  show ?thesis
    unfolding j normpath_plain [OF 1 2 3] 4 ..
qed

subsection \<open>The files of a tree\<close>

lemma file_names_simps [simp]:
  "file_names [] = []"
  "file_names (ti # tf) = (if ti_isdir ti then file_names tf else ti_name ti # file_names tf)"
  "file_names (tf @ tf') = file_names tf @ file_names tf'"
  by (simp_all add: file_names_def)

lemma file_names_concat: "file_names (concat xs) = concat (map file_names xs)"
  by (induction xs) simp_all

lemma mset_concat_map_cong:
  "(\<And>x. x \<in> set xs \<Longrightarrow> mset (f x) = mset (g x)) \<Longrightarrow>
     mset (concat (map f xs)) = mset (concat (map g xs))"
  by (induction xs) simp_all

lemma mset_concat_map: "mset (concat (map f xs)) = (\<Sum>x\<in>#mset xs. mset (f x))"
  by (induction xs) simp_all

lemma mset_concat_map_sort:
  "mset (concat (map f (sort_key k xs))) = mset (concat (map f xs))"
  by (simp add: mset_concat_map)

lemma mset_concat_map_partition:
  "mset (concat (map f xs)) =
     mset (concat (map f (filter P xs))) + mset (concat (map f (filter (\<lambda>x. \<not> P x) xs)))"
  by (induction xs) simp_all

lemma tar_members_tree_files:
  assumes "valid_node src" and "ps \<noteq> []" and "list_all valid_name ps"
  shows "mset (file_names (tar_members Some src (str_join ''/'' ps))) = mset (tree_files ps src)"
  using assms
proof (induction src arbitrary: ps)
  case (File n c)
  then show ?case by (simp add: lstrip_plain)
next
  case (Dir n cs)
  have "mset (file_names (tar_members Some c (posixpath_join (str_join ''/'' ps) [node_name c])))
          = mset (tree_files (ps @ [node_name c]) c)" if "c \<in> set cs" for c
  proof -
    from that Dir.prems(1) have v: "valid_node c" by (simp add: list_all_iff)
    then have n: "valid_name (node_name c)" by (cases c) simp_all
    have "posixpath_join (str_join ''/'' ps) [node_name c] = str_join ''/'' (ps @ [node_name c])"
      using Dir.prems(2,3) n by (rule join_plain)
    moreover have "mset (file_names (tar_members Some c (str_join ''/'' (ps @ [node_name c]))))
            = mset (tree_files (ps @ [node_name c]) c)"
      using that v Dir.prems(3) n by (intro Dir.IH) simp_all
    ultimately show ?thesis by simp
  qed
  then have "mset (concat (map (\<lambda>c. file_names (tar_members Some c
                 (posixpath_join (str_join ''/'' ps) [node_name c]))) cs))
           = mset (concat (map (\<lambda>c. tree_files (ps @ [node_name c]) c) cs))"
    by (rule mset_concat_map_cong)
  then show ?case
    by (simp add: file_names_concat comp_def mset_concat_map_sort del: posixpath_join.simps)
qed

lemma concat_concat_map: "concat (concat (map f xs)) = concat (map (\<lambda>x. concat (f x)) xs)"
  by (induction xs) simp_all

lemma map_eq_concat_singletons:
  "(\<And>x. x \<in> set xs \<Longrightarrow> [p x] = t x) \<Longrightarrow> map p xs = concat (map t xs)"
proof (induction xs)
  case Nil
  then show ?case by simp
next
  case (Cons x xs)
  from Cons.prems [of x] have "t x = [p x]" by simp
  moreover from Cons have "map p xs = concat (map t xs)" by simp
  ultimately show ?case by simp
qed

lemma walk_paths_Dir:
  "walk_paths a segs (Dir n cs) =
     map (\<lambda>c. normpath (posixpath_join a [relpath segs, node_name c])) (filter is_File cs)
     @ concat (map (\<lambda>d. walk_paths a (segs @ [node_name d]) d) (filter is_Dir cs))"
  by (simp add: walk_paths_def comp_def map_concat concat_concat_map del: posixpath_join.simps)

lemma valid_node_name: "valid_node c \<Longrightarrow> valid_name (node_name c)"
  by (cases c) simp_all

lemma walk_paths_tree_files:
  assumes "valid_node src" and "is_Dir src" and "ss \<noteq> []" and "list_all valid_name ss"
    and "list_all valid_name segs"
  shows "mset (walk_paths (str_join ''/'' ss) segs src) = mset (tree_files (ss @ segs) src)"
  using assms
proof (induction src arbitrary: segs)
  case (File n c)
  then show ?case by simp
next
  case (Dir n cs)
  let ?a = "str_join ''/'' ss"
  let ?t = "\<lambda>c. tree_files ((ss @ segs) @ [node_name c]) c"
  define P where "P = (\<lambda>c. normpath (posixpath_join ?a [relpath segs, node_name c]))"
  have files: "map P (filter is_File cs) = concat (map ?t (filter is_File cs))"
  proof -
    have "[P c] = ?t c" if "c \<in> set (filter is_File cs)" for c
    proof -
      from that Dir.prems(1) have "valid_name (node_name c)"
        by (auto simp: list_all_iff dest: valid_node_name)
      from recorded_path_plain [OF Dir.prems(3,4,5) this] that show ?thesis
        unfolding P_def by (cases c) simp_all
    qed
    then show ?thesis by (rule map_eq_concat_singletons)
  qed
  have dirs: "mset (concat (map (\<lambda>d. walk_paths ?a (segs @ [node_name d]) d) (filter is_Dir cs)))
                = mset (concat (map ?t (filter (\<lambda>c. \<not> is_File c) cs)))"
  proof -
    have d: "filter is_Dir cs = filter (\<lambda>c. \<not> is_File c) cs"
      by (intro filter_cong) (auto simp: node.disc_eq_case split: node.splits)
    have "mset (walk_paths ?a (segs @ [node_name c]) c) = mset (?t c)"
      if "c \<in> set (filter is_Dir cs)" for c
    proof -
      from that Dir.prems(1) have v: "valid_node c" and c: "c \<in> set cs" and i: "is_Dir c"
        by (auto simp: list_all_iff)
      from v have "valid_name (node_name c)" by (rule valid_node_name)
      with Dir.prems(5) have "list_all valid_name (segs @ [node_name c])" by simp
      from Dir.IH [OF c v i Dir.prems(3,4) this] show ?thesis by simp
    qed
    then show ?thesis
      unfolding d [symmetric] by (rule mset_concat_map_cong)
  qed
  have "mset (tree_files (ss @ segs) (Dir n cs))
          = mset (concat (map ?t (filter is_File cs)))
            + mset (concat (map ?t (filter (\<lambda>c. \<not> is_File c) cs)))"
    using mset_concat_map_partition [of ?t cs is_File] by simp
  moreover have "walk_paths ?a segs (Dir n cs) =
      map P (filter is_File cs)
      @ concat (map (\<lambda>d. walk_paths ?a (segs @ [node_name d]) d) (filter is_Dir cs))"
    unfolding P_def by (rule walk_paths_Dir)
  ultimately show ?case
    using files dirs by simp
qed

text \<open>What is recorded for a tree and what is added to the archive for it: the same files.\<close>

lemma recorded_paths_tar_members:
  assumes "valid_node src" and "ps \<noteq> []" and "list_all valid_name ps"
  shows "mset (recorded_paths (str_join ''/'' ps) src) = mset (tree_files ps src)"
proof (cases src)
  case (File n c)
  then show ?thesis by (simp add: recorded_paths_def)
next
  case (Dir n cs)
  have "recorded_paths (str_join ''/'' ps) src = walk_paths (str_join ''/'' ps) [] src"
    by (simp add: Dir recorded_paths_def walk_paths_def)
  moreover have "mset (walk_paths (str_join ''/'' ps) [] src) = mset (tree_files (ps @ []) src)"
    using assms Dir by (intro walk_paths_tree_files) simp_all
  ultimately show ?thesis by simp
qed

lemma endswith_iff: "endswith s suf \<longleftrightarrow> (\<exists>p. s = p @ suf)"
proof
  assume "endswith s suf"
  then have "s = take (length s - length suf) s @ suf"
    by (simp add: endswith_def) (metis append_take_drop_id)
  then show "\<exists>p. s = p @ suf" ..
next
  assume "\<exists>p. s = p @ suf"
  then show "endswith s suf" by (auto simp: endswith_def)
qed

lemma endswith_after_slash:
  assumes "CHR ''/'' \<notin> set suf"
  shows "endswith (a @ CHR ''/'' # n) suf \<longleftrightarrow> endswith n suf"
proof
  assume "endswith (a @ CHR ''/'' # n) suf"
  then obtain p where p: "a @ CHR ''/'' # n = p @ suf" by (auto simp: endswith_iff)
  then consider us where "a = p @ us" "us @ CHR ''/'' # n = suf"
    | us where "a @ us = p" "CHR ''/'' # n = us @ suf"
    by (auto simp: append_eq_append_conv2)
  then show "endswith n suf"
  proof cases
    case 1
    with assms show ?thesis by auto
  next
    case 2
    with assms show ?thesis
      by (cases us) (auto simp: endswith_iff)
  qed
next
  assume "endswith n suf"
  then show "endswith (a @ CHR ''/'' # n) suf"
    by (auto simp: endswith_iff)
qed

lemma endswith_str_join:
  assumes "ps \<noteq> []" and "CHR ''/'' \<notin> set suf"
  shows "endswith (str_join ''/'' ps) suf \<longleftrightarrow> endswith (last ps) suf"
proof (cases ps rule: rev_cases)
  case Nil
  with assms show ?thesis by simp
next
  case (snoc qs n)
  show ?thesis
  proof (cases "qs = []")
    case True
    with snoc show ?thesis by simp
  next
    case False
    with snoc assms(2) show ?thesis
      using endswith_after_slash [of suf "str_join ''/'' qs" n]
      by (simp add: str_join_snoc)
  qed
qed

lemma exclude_record_plain:
  assumes "ps \<noteq> []"
  shows "exclude_record \<lparr>ti_name = str_join ''/'' ps, ti_isdir = d, ti_data = c\<rparr>
           = (if endswith (last ps) ''RECORD'' then None
              else Some \<lparr>ti_name = str_join ''/'' ps, ti_isdir = d, ti_data = c\<rparr>)"
  using endswith_str_join [OF assms, of "''RECORD''"] by (simp add: exclude_record_def)

lemma tar_members_record_free:
  assumes "record_free src" and "valid_node src" and "ps \<noteq> []" and "list_all valid_name ps"
    and "last ps = node_name src"
  shows "tar_members exclude_record src (str_join ''/'' ps) = tar_members Some src (str_join ''/'' ps)"
  using assms
proof (induction src arbitrary: ps)
  case (File n c)
  then show ?case by (simp add: lstrip_plain exclude_record_plain)
next
  case (Dir n cs)
  have "tar_members exclude_record c (posixpath_join (str_join ''/'' ps) [node_name c])
          = tar_members Some c (posixpath_join (str_join ''/'' ps) [node_name c])"
    if "c \<in> set (sort_key node_name cs)" for c
  proof -
    from that have c: "c \<in> set cs" by simp
    with Dir.prems(1,2) have r: "record_free c" and v: "valid_node c"
      by (simp_all add: list_all_iff)
    from v have n: "valid_name (node_name c)" by (rule valid_node_name)
    have j: "posixpath_join (str_join ''/'' ps) [node_name c] = str_join ''/'' (ps @ [node_name c])"
      using Dir.prems(3,4) n by (rule join_plain)
    show ?thesis
      unfolding j using c r v Dir.prems(4) n by (intro Dir.IH) simp_all
  qed
  then have m: "map (\<lambda>c. tar_members exclude_record c (posixpath_join (str_join ''/'' ps) [node_name c]))
                 (sort_key node_name cs)
           = map (\<lambda>c. tar_members Some c (posixpath_join (str_join ''/'' ps) [node_name c]))
                 (sort_key node_name cs)"
    by (intro map_cong) simp_all
  have top: "exclude_record \<lparr>ti_name = dropWhile (\<lambda>x. x = CHR ''/'') (str_join ''/'' ps),
                            ti_isdir = True, ti_data = []\<rparr>
               = Some \<lparr>ti_name = dropWhile (\<lambda>x. x = CHR ''/'') (str_join ''/'' ps),
                            ti_isdir = True, ti_data = []\<rparr>"
    using Dir.prems by (simp add: lstrip_plain exclude_record_plain)
  show ?case
    unfolding tar_members.simps top m by simp
qed

lemma tar_members_excluded:
  assumes "ps \<noteq> []" and "list_all valid_name ps" and "endswith (last ps) ''RECORD''"
  shows "tar_members exclude_record src (str_join ''/'' ps) = []"
  using assms by (cases src) (simp_all add: lstrip_plain exclude_record_plain)

lemma filter_distinct_key:
  "distinct (map f xs) \<Longrightarrow> x \<in> set xs \<Longrightarrow> filter (\<lambda>y. f y = f x) xs = [x]"
proof (induction xs)
  case Nil
  then show ?case by simp
next
  case (Cons a xs)
  show ?case
  proof (cases "a = x")
    case True
    with Cons.prems(1) have "f x \<notin> f ` set xs" by simp
    then have "\<forall>y \<in> set xs. f y \<noteq> f x" by (metis imageI)
    then have "filter (\<lambda>y. f y = f x) xs = []"
      by (simp add: filter_empty_conv)
    with True show ?thesis by simp
  next
    case False
    with Cons show ?thesis by auto
  qed
qed

lemma dist_info_members:
  assumes "valid_node (Dir n cs)" and "ps \<noteq> []" and "list_all valid_name ps" and "last ps = n"
    and "\<not> endswith n ''RECORD''"
    and "list_all (\<lambda>c. node_name c = ''RECORD'' \<or> record_free c) cs"
    and "File ''RECORD'' r \<in> set cs"
  shows "mset (recorded_paths (str_join ''/'' ps) (Dir n cs))
           = mset (file_names (tar_members exclude_record (Dir n cs) (str_join ''/'' ps)))
             + {#str_join ''/'' (ps @ [''RECORD''])#}"
proof -
  let ?a = "str_join ''/'' ps"
  define t where "t = (\<lambda>c. tree_files (ps @ [node_name c]) c)"
  define e where
    "e = (\<lambda>c. file_names (tar_members exclude_record c (posixpath_join ?a [node_name c])))"
  let ?R = "\<lambda>c. node_name c = ''RECORD''"
  have j: "posixpath_join ?a [node_name c] = str_join ''/'' (ps @ [node_name c])"
    if "c \<in> set cs" for c
  proof -
    from that assms(1) have "valid_name (node_name c)"
      by (auto simp: list_all_iff dest: valid_node_name)
    with assms(2,3) show ?thesis by (rule join_plain)
  qed
  have rec: "filter ?R cs = [File ''RECORD'' r]"
    using filter_distinct_key [of node_name cs "File ''RECORD'' r"] assms(1,7) by simp
  have t_rec: "mset (concat (map t (filter ?R cs))) = {#str_join ''/'' (ps @ [''RECORD''])#}"
    unfolding rec by (simp add: t_def)
  have e_rec: "mset (concat (map e (filter ?R cs))) = {#}"
  proof -
    have "e (File ''RECORD'' r) = []"
      unfolding e_def
      using j [OF assms(7)] assms(2,3)
        tar_members_excluded [of "ps @ [''RECORD'']" "File ''RECORD'' r"]
      by (simp add: endswith_def valid_name_def del: posixpath_join.simps)
    then show ?thesis unfolding rec by simp
  qed
  have rest: "mset (concat (map e (filter (\<lambda>c. \<not> ?R c) cs)))
                = mset (concat (map t (filter (\<lambda>c. \<not> ?R c) cs)))"
  proof (rule mset_concat_map_cong)
    fix c assume "c \<in> set (filter (\<lambda>c. \<not> ?R c) cs)"
    then have c: "c \<in> set cs" and nr: "node_name c \<noteq> ''RECORD''" by simp_all
    from c assms(1) have v: "valid_node c" by (simp add: list_all_iff)
    then have n: "valid_name (node_name c)" by (rule valid_node_name)
    from c nr assms(6) have f: "record_free c" by (auto simp: list_all_iff)
    have p: "ps @ [node_name c] \<noteq> []" "list_all valid_name (ps @ [node_name c])"
      using assms(3) n by simp_all
    have "tar_members exclude_record c (str_join ''/'' (ps @ [node_name c]))
            = tar_members Some c (str_join ''/'' (ps @ [node_name c]))"
      using f v p by (rule tar_members_record_free) simp
    with tar_members_tree_files [OF v p] j [OF c]
    show "mset (e c) = mset (t c)" by (simp add: e_def t_def del: posixpath_join.simps)
  qed
  have tar: "mset (file_names (tar_members exclude_record (Dir n cs) ?a))
               = mset (concat (map e cs))"
  proof -
    have "exclude_record \<lparr>ti_name = dropWhile (\<lambda>x. x = CHR ''/'') ?a, ti_isdir = True, ti_data = []\<rparr>
            = Some \<lparr>ti_name = dropWhile (\<lambda>x. x = CHR ''/'') ?a, ti_isdir = True, ti_data = []\<rparr>"
      using assms(2-5) by (simp add: lstrip_plain exclude_record_plain)
    then show ?thesis
      unfolding e_def
      by (simp add: file_names_concat comp_def mset_concat_map_sort
          del: posixpath_join.simps)
  qed
  have "mset (recorded_paths ?a (Dir n cs)) = mset (concat (map t cs))"
    using recorded_paths_tar_members [OF assms(1-3)] by (simp add: t_def)
  also have "\<dots> = mset (concat (map t (filter ?R cs)))
                   + mset (concat (map t (filter (\<lambda>c. \<not> ?R c) cs)))"
    by (rule mset_concat_map_partition)
  also have "\<dots> = mset (concat (map e cs)) + {#str_join ''/'' (ps @ [''RECORD''])#}"
    using mset_concat_map_partition [of e cs ?R] t_rec e_rec rest by simp
  finally show ?thesis
    unfolding tar .
qed

subsection \<open>The list of files and the archive\<close>

lemma mset_balance_trans:
  fixes a t a' t' a'' t'' k k' :: "'a multiset"
  assumes "a' + t = a + t' + k" and "a'' + t' = a' + t'' + k'"
  shows "a'' + t = a + t'' + (k + k')"
proof -
  have "a'' + t' + t = a' + t'' + k' + t" using assms(2) by simp
  also have "\<dots> = (a' + t) + t'' + k'" by (simp add: ac_simps)
  also have "\<dots> = (a + t' + k) + t'' + k'" using assms(1) by simp
  finally have "(a'' + t) + t' = (a + t'' + (k + k')) + t'" by (simp add: ac_simps)
  then show ?thesis by simp
qed

lemma site_packages_plain:
  assumes "CHR ''/'' \<notin> set (python_version b)"
  shows "\<exists>ss. ss \<noteq> [] \<and> list_all valid_name ss
            \<and> (\<forall>n. site_packages_path b @ n = str_join ''/'' (ss @ [n]))"
proof (cases "platform b = win")
  case True
  have "list_all valid_name [''Lib'', ''site-packages'']" by (simp add: valid_name_def)
  moreover have "\<forall>n. site_packages_path b @ n = str_join ''/'' ([''Lib'', ''site-packages''] @ [n])"
    using True by (simp add: site_packages_path_def)
  ultimately show ?thesis by blast
next
  case False
  let ?ss = "[''lib'', ''python'' @ python_version b, ''site-packages'']"
  have "list_all valid_name ?ss" using assms by (simp add: valid_name_def)
  moreover have "\<forall>n. site_packages_path b @ n = str_join ''/'' (?ss @ [n])"
    using False by (simp add: site_packages_path_def)
  ultimately show ?thesis by blast
qed

lemma record_and_add:
  assumes "valid_node src" and "ps \<noteq> []" and "list_all valid_name ps"
  shows "mset (files (record_file_or_dir b (str_join ''/'' ps) src))
           = mset (files b) + mset (file_names (tar_members Some src (str_join ''/'' ps)))"
  using recorded_paths_tar_members [OF assms] tar_members_tree_files [OF assms]
  by (simp add: record_file_or_dir_files)

lemma add_data_file_balance:
  assumes "valid_node f"
  shows "mset (files (fst (add_data_file f (b, tf)))) + mset (file_names tf)
           = mset (files b) + mset (file_names (snd (add_data_file f (b, tf))))"
proof -
  have "str_join ''/'' [node_name f] = node_name f" by simp
  with record_and_add [OF assms, of "[node_name f]" b] valid_node_name [OF assms]
  show ?thesis by (simp add: add_data_file_def)
qed

lemma fold_add_data_file_balance:
  assumes "list_all valid_node fs"
  shows "mset (files (fst (fold add_data_file fs st))) + mset (file_names (snd st))
           = mset (files (fst st)) + mset (file_names (snd (fold add_data_file fs st)))"
  using assms
proof (induction fs arbitrary: st)
  case Nil
  then show ?case by simp
next
  case (Cons f fs)
  obtain b tf where st: "st = (b, tf)" by (cases st)
  let ?st1 = "add_data_file f st"
  from Cons.prems have 1: "mset (files (fst ?st1)) + mset (file_names (snd st))
           = mset (files (fst st)) + mset (file_names (snd ?st1)) + {#}"
    using add_data_file_balance [of f b tf] by (simp add: st)
  from Cons.prems have 2: "mset (files (fst (fold add_data_file fs ?st1))) + mset (file_names (snd ?st1))
           = mset (files (fst ?st1)) + mset (file_names (snd (fold add_data_file fs ?st1))) + {#}"
    using Cons.IH [of ?st1] by simp
  from mset_balance_trans [OF 1 2] show ?case by simp
qed

lemma add_data_dir_loop_balance:
  assumes "list_all valid_node ds" and "add_data_dir_loop ds st = Inr st'"
  shows "mset (files (fst st')) + mset (file_names (snd st))
           = mset (files (fst st)) + mset (file_names (snd st'))"
  using assms
proof (induction ds arbitrary: st)
  case Nil
  then show ?case by simp
next
  case (Cons d ds)
  show ?case
  proof (cases d)
    case (File n c)
    with Cons.prems show ?thesis by (simp split: if_splits)
  next
    case (Dir n fs)
    let ?st1 = "fold add_data_file fs st"
    from Cons.prems Dir have run: "add_data_dir_loop ds ?st1 = Inr st'"
      by (simp split: if_splits)
    from Cons.prems(1) Dir have "list_all valid_node fs" by simp
    from fold_add_data_file_balance [OF this, of st]
    have 1: "mset (files (fst ?st1)) + mset (file_names (snd st))
               = mset (files (fst st)) + mset (file_names (snd ?st1)) + {#}" by simp
    from Cons.prems(1) have "list_all valid_node ds" by simp
    from Cons.IH [OF this run]
    have 2: "mset (files (fst st')) + mset (file_names (snd ?st1))
               = mset (files (fst ?st1)) + mset (file_names (snd st')) + {#}" by simp
    from mset_balance_trans [OF 1 2] show ?thesis by simp
  qed
qed

lemma add_data_dir_balance:
  assumes "valid_node src" and "add_data_dir src st = Inr st'"
  shows "mset (files (fst st')) + mset (file_names (snd st))
           = mset (files (fst st)) + mset (file_names (snd st'))"
proof (cases src)
  case (File n c)
  with assms(2) show ?thesis by (simp add: add_data_dir_def)
next
  case (Dir n ds)
  with assms have "list_all valid_node ds" "add_data_dir_loop ds st = Inr st'"
    by (simp_all add: add_data_dir_def)
  then show ?thesis by (rule add_data_dir_loop_balance)
qed

lemma endswith_last: "endswith s suf \<Longrightarrow> suf \<noteq> [] \<Longrightarrow> last s = last suf"
  by (auto simp: endswith_iff)

lemma dist_info_not_data: "endswith n ''.dist-info'' \<Longrightarrow> \<not> endswith n ''.data''"
  by (auto dest!: endswith_last)

lemma dist_info_not_record: "endswith n ''.dist-info'' \<Longrightarrow> \<not> endswith n ''RECORD''"
  by (auto dest!: endswith_last)

lemma is_file_Dir:
  assumes "is_file d f"
  shows "\<exists>n cs r. d = Dir n cs \<and> File f r \<in> set cs"
proof (cases d)
  case (File n c)
  with assms show ?thesis by (simp add: is_file_def open_read_def)
next
  case (Dir n cs)
  with assms obtain x rest where x: "filter (\<lambda>x. node_name x = f) cs = x # rest" "is_File x"
    by (auto simp: is_file_def open_read_def split: list.splits node.splits)
  then have "x \<in> set (filter (\<lambda>x. node_name x = f) cs)" by simp
  then have "x \<in> set cs" "node_name x = f" by simp_all
  with x(2) have "File f (file_bytes x) \<in> set cs" by (cases x) simp_all
  with Dir show ?thesis by blast
qed

lemma site_packages_path_same: "same_target b b' \<Longrightarrow> site_packages_path b' = site_packages_path b"
  by (simp add: same_target_def site_packages_path_def)

lemma add_module_loop_balance:
  assumes "list_all valid_node xs" and "CHR ''/'' \<notin> set (python_version b)"
    and "\<forall>x \<in> set xs. endswith (node_name x) ''.dist-info'' \<longrightarrow>
           only_record x \<and> is_file x ''RECORD''"
    and "add_module_loop xs (b, tf) = Inr (b', tf')"
  shows "mset (files b') + mset (file_names tf)
           = mset (files b) + mset (file_names tf')
             + mset (map (\<lambda>x. site_packages_path b @ node_name x @ ''/RECORD'')
                         (filter (\<lambda>x. endswith (node_name x) ''.dist-info'') xs))"
  using assms
proof (induction xs arbitrary: b tf)
  case Nil
  then show ?case by simp
next
  case (Cons src rest)
  let ?K = "\<lambda>b xs. mset (map (\<lambda>x. site_packages_path b @ node_name x @ ''/RECORD'')
                         (filter (\<lambda>x. endswith (node_name x) ''.dist-info'') xs))"
  from Cons.prems(1) have v: "valid_node src" and vr: "list_all valid_node rest" by simp_all
  from v have vn: "valid_name (node_name src)" by (rule valid_node_name)
  from Cons.prems(3) have hr: "\<forall>x \<in> set rest. endswith (node_name x) ''.dist-info'' \<longrightarrow>
           only_record x \<and> is_file x ''RECORD''" by simp
  show ?case
  proof (cases "endswith (node_name src) ''.data''")
    case True
    then have nd: "\<not> endswith (node_name src) ''.dist-info''"
      using dist_info_not_data by blast
    from Cons.prems(4) True obtain b1 tf1 where 1: "add_data_dir src (b, tf) = Inr (b1, tf1)"
      and 2: "add_module_loop rest (b1, tf1) = Inr (b', tf')"
      by (auto split: sum.splits)
    from 1 have st: "same_target b b1"
      by (auto simp: add_data_dir_def split: node.splits dest: add_data_dir_loop_target)
    then have pv: "CHR ''/'' \<notin> set (python_version b1)"
      using Cons.prems(2) by (simp add: same_target_def)
    from add_data_dir_balance [OF v 1]
    have e1: "mset (files b1) + mset (file_names tf) = mset (files b) + mset (file_names tf1) + {#}"
      by simp
    from Cons.IH [OF vr pv hr 2]
    have e2: "mset (files b') + mset (file_names tf1)
                = mset (files b1) + mset (file_names tf') + ?K b rest"
      by (simp add: site_packages_path_same [OF st])
    from mset_balance_trans [OF e1 e2] nd show ?thesis by simp
  next
    case False
    from site_packages_plain [OF Cons.prems(2)] obtain ss where ss: "ss \<noteq> []"
      "list_all valid_name ss" "\<And>n. site_packages_path b @ n = str_join ''/'' (ss @ [n])"
      by blast
    let ?dst = "site_packages_path b @ node_name src"
    let ?ps = "ss @ [node_name src]"
    have dst: "?dst = str_join ''/'' ?ps" by (rule ss(3))
    have ps: "?ps \<noteq> []" "list_all valid_name ?ps" using ss(2) vn by simp_all
    let ?b1 = "record_file_or_dir b ?dst src"
    have st: "same_target b ?b1" by simp
    then have pv: "CHR ''/'' \<notin> set (python_version ?b1)"
      using Cons.prems(2) by (simp add: same_target_def)
    show ?thesis
    proof (cases "endswith (node_name src) ''.dist-info''")
      case True
      let ?tf1 = "tf @ tar_members exclude_record src ?dst"
      from Cons.prems(4) False True have run: "add_module_loop rest (?b1, ?tf1) = Inr (b', tf')"
        by (simp add: Let_def)
      from Cons.prems(3) True have "only_record src" "is_file src ''RECORD''" by simp_all
      with is_file_Dir obtain n cs r where d: "src = Dir n cs" "File ''RECORD'' r \<in> set cs"
        "list_all (\<lambda>c. node_name c = ''RECORD'' \<or> record_free c) cs"
        by (fastforce simp: only_record_def)
      have "mset (recorded_paths (str_join ''/'' ?ps) (Dir n cs))
              = mset (file_names (tar_members exclude_record (Dir n cs) (str_join ''/'' ?ps)))
                + {#str_join ''/'' (?ps @ [''RECORD''])#}"
        using v ps True d by (intro dist_info_members [where r = r])
          (simp_all add: dist_info_not_record)
      moreover have "str_join ''/'' (?ps @ [''RECORD'']) = ?dst @ ''/RECORD''"
        using str_join_snoc [OF ps(1), of "''/''" "''RECORD''"] dst by simp
      ultimately have "mset (recorded_paths ?dst src)
              = mset (file_names (tar_members exclude_record src ?dst)) + {#?dst @ ''/RECORD''#}"
        by (simp only: dst [symmetric] d(1) [symmetric])
      then have e1: "mset (files ?b1) + mset (file_names tf)
                = mset (files b) + mset (file_names ?tf1) + {#?dst @ ''/RECORD''#}"
        by (simp add: record_file_or_dir_files)
      from Cons.IH [OF vr pv hr run]
      have e2: "mset (files b') + mset (file_names ?tf1)
                  = mset (files ?b1) + mset (file_names tf') + ?K b rest"
        by (simp add: site_packages_path_same [OF st])
      from mset_balance_trans [OF e1 e2] True show ?thesis by simp
    next
      case nd: False
      let ?tf1 = "tf @ tar_members Some src ?dst"
      from Cons.prems(4) False nd have run: "add_module_loop rest (?b1, ?tf1) = Inr (b', tf')"
        by (simp add: Let_def)
      from record_and_add [OF v ps, of b]
      have e1: "mset (files ?b1) + mset (file_names tf)
                = mset (files b) + mset (file_names ?tf1) + {#}"
        by (simp add: dst)
      from Cons.IH [OF vr pv hr run]
      have e2: "mset (files b') + mset (file_names ?tf1)
                  = mset (files ?b1) + mset (file_names tf') + ?K b rest"
        by (simp add: site_packages_path_same [OF st])
      from mset_balance_trans [OF e1 e2] nd show ?thesis by simp
    qed
  qed
qed

lemma check_loop_dist_info:
  assumes "check_loop xs di dd = Inr (r, dd')"
  shows "case di of
           None \<Rightarrow> (case r of
                      None \<Rightarrow> filter (\<lambda>x. endswith (node_name x) ''.dist-info'') xs = []
                    | Some d \<Rightarrow> filter (\<lambda>x. endswith (node_name x) ''.dist-info'') xs = [d] \<and> is_Dir d)
         | Some d0 \<Rightarrow> r = Some d0 \<and> filter (\<lambda>x. endswith (node_name x) ''.dist-info'') xs = []"
  using assms
proof (induction xs arbitrary: di dd)
  case Nil
  then show ?case by (auto split: option.splits)
next
  case (Cons x xs)
  show ?case
  proof (cases "endswith (node_name x) ''.dist-info''")
    case True
    then have nd: "\<not> endswith (node_name x) ''.data''" by (rule dist_info_not_data)
    from Cons.prems True nd have d: "is_Dir x" "di = None"
      and run: "check_loop xs (Some x) dd = Inr (r, dd')"
      by (auto split: if_splits)
    from Cons.IH [OF run] True d show ?thesis by (auto split: option.splits)
  next
    case False
    with Cons.prems obtain dd1 where "check_loop xs di dd1 = Inr (r, dd')"
      by (auto split: if_splits)
    from Cons.IH [OF this] False show ?thesis by (auto split: option.splits)
  qed
qed

lemma check_dist_info:
  assumes "check wc = Inr ()"
  shows "\<exists>d. filter (\<lambda>x. endswith (node_name x) ''.dist-info'') (unpacked wc) = [d] \<and> is_Dir d"
proof -
  from assms obtain d dd where "check_loop (unpacked wc) None None = Inr (Some d, dd)"
    by (auto simp: check_def split: sum.splits option.splits prod.splits)
  from check_loop_dist_info [OF this] show ?thesis by auto
qed

lemma write_script_unix_balance:
  "write_script_unix lib (b, tf) name s = (b', tf') \<Longrightarrow>
     files b' = files b @ [scripts_path b @ name]
     \<and> file_names tf' = file_names tf @ [scripts_path b @ name] \<and> same_target b b'"
  by (auto simp: write_script_unix_def Let_def addfile_def record_file_def py_record_file_def
      same_target_def)

lemma lstrip_scripts_path:
  "dropWhile (\<lambda>x. x = CHR ''/'') (scripts_path b @ n) = scripts_path b @ n"
  by (simp add: scripts_path_def)

lemma scripts_path_same: "same_target b b' \<Longrightarrow> scripts_path b' = scripts_path b"
  by (simp add: same_target_def scripts_path_def)

lemma write_script_windows_balance:
  assumes "write_script_windows lib (b, tf) name s = (b', tf')"
  shows "mset (files b') + mset (file_names tf) = mset (files b) + mset (file_names tf')
         \<and> same_target b b'"
proof -
  obtain b1 tf1 where 1: "write_script_unix lib (b, tf) (name @ ''-script.py'') s = (b1, tf1)"
    by (cases "write_script_unix lib (b, tf) (name @ ''-script.py'') s")
  from write_script_unix_balance [OF 1]
  have u: "files b1 = files b @ [scripts_path b @ name @ ''-script.py'']"
    "file_names tf1 = file_names tf @ [scripts_path b @ name @ ''-script.py'']"
    "same_target b b1" by simp_all
  from assms 1 have
    "files b' = files b1 @ [scripts_path b1 @ name @ ''.exe'']"
    "file_names tf' = file_names tf1 @ [dropWhile (\<lambda>x. x = CHR ''/'') (scripts_path b1 @ name @ ''.exe'')]"
    "same_target b1 b'"
    by (auto simp: write_script_windows_def Let_def record_file_def py_record_file_def
        same_target_def)
  with u show ?thesis
    by (auto simp: lstrip_scripts_path intro: same_target_trans)
qed

lemma create_scripts_loop_balance:
  assumes "create_scripts_loop lib eps st = Inr st'"
  shows "mset (files (fst st')) + mset (file_names (snd st))
           = mset (files (fst st)) + mset (file_names (snd st'))
         \<and> same_target (fst st) (fst st')"
  using assms
proof (induction eps arbitrary: st)
  case Nil
  then show ?case by simp
next
  case (Cons x eps)
  obtain name ep where x: "x = (name, ep)" by (cases x)
  obtain b tf where st: "st = (b, tf)" by (cases st)
  from Cons.prems x have c1: "count_list ep (CHR '':'') = 1"
    by (auto split: if_splits)
  let ?s = "script_template (PREFIX @ ''/bin/python'')
              (takeWhile (\<lambda>x. x \<noteq> CHR '':'') ep) (tl (dropWhile (\<lambda>x. x \<noteq> CHR '':'') ep))"
  let ?st1 = "if platform (fst st) = win then write_script_windows lib st name ?s
              else write_script_unix lib st name ?s"
  from Cons.prems have run: "create_scripts_loop lib eps ?st1 = Inr st'"
    unfolding x create_scripts_loop_step [OF c1] .
  have 1: "mset (files (fst ?st1)) + mset (file_names (snd st))
             = mset (files (fst st)) + mset (file_names (snd ?st1)) + {#}
           \<and> same_target (fst st) (fst ?st1)"
  proof (cases "platform b = win")
    case True
    obtain b1 tf1 where w: "write_script_windows lib (b, tf) name ?s = (b1, tf1)"
      by (cases "write_script_windows lib (b, tf) name ?s")
    from write_script_windows_balance [OF w] True w show ?thesis by (simp add: st)
  next
    case False
    obtain b1 tf1 where w: "write_script_unix lib (b, tf) name ?s = (b1, tf1)"
      by (cases "write_script_unix lib (b, tf) name ?s")
    from write_script_unix_balance [OF w] False w show ?thesis by (simp add: st)
  qed
  from Cons.IH [OF run]
  have 2: "mset (files (fst st')) + mset (file_names (snd ?st1))
             = mset (files (fst ?st1)) + mset (file_names (snd st')) + {#}"
    and 3: "same_target (fst ?st1) (fst st')" by simp_all
  from mset_balance_trans [OF conjunct1 [OF 1] 2] same_target_trans [OF conjunct2 [OF 1] 3]
  show ?case by simp
qed

lemma create_scripts_balance:
  assumes "create_scripts lib st = Inr st'"
  shows "mset (files (fst st')) + mset (file_names (snd st))
           = mset (files (fst st)) + mset (file_names (snd st'))
         \<and> same_target (fst st) (fst st')"
proof -
  from assms have "st' = st \<or> (\<exists>eps. create_scripts_loop lib eps st = Inr st')"
    by (auto simp: create_scripts_def split: sum.splits if_splits)
  then show ?thesis
    by (auto dest: create_scripts_loop_balance)
qed

lemma write_pep376_record_member:
  assumes "write_pep376_record lib (b, tf) = Inr st"
  shows "\<exists>d text cont. find_dist_info (wheel_contents b) = Inr d \<and> open_read d ''RECORD'' = Inr text
           \<and> st = (b, tf @ [\<lparr>ti_name = site_packages_path b @ node_name d @ ''/RECORD'',
                               ti_isdir = False, ti_data = cont\<rparr>])"
  using assms
  by (auto simp: write_pep376_record_def addfile_def Let_def split: sum.splits)

lemma write_index_member:
  assumes "write_index lib (b, tf) = Inr st"
  shows "\<exists>cont. st = (b, tf @ [\<lparr>ti_name = ''info/index.json'', ti_isdir = False, ti_data = cont\<rparr>])"
  using assms by (auto simp: write_index_def addfile_def split: sum.splits)

text \<open>
  Claim C1, as amended. Take a wheel that passes \<^verbatim>\<open>check\<close>, with valid file names, in
  whose \<open>.dist-info\<close> directory no name but that of \<open>RECORD\<close> itself ends in
  \<open>RECORD\<close>, and a Python version without a slash. When \<^verbatim>\<open>build\<close> completes, the
  archive is a body followed by the three members \<open>info/index.json\<close>,
  \<open>info/has_prefix\<close> and \<open>info/files\<close>. The recorded paths and the names of the regular
  files of the body are the same, each as often in the list as in the body; and the text of
  \<open>info/files\<close> is the list in the order of recording, joined by line feeds. The three
  members under \<open>info/\<close> are not recorded.
\<close>

theorem files_list_matches_archive:
  assumes "list_all valid_node (unpacked wc)"
    and "check wc = Inr ()"
    and "CHR ''/'' \<notin> set pv"
    and "find_dist_info wc = Inr dist_info"
    and "only_record dist_info"
    and "build lib (PackageBuilder_init wc pv pf bits) = Inr (b, tf)"
  shows "\<exists>body index has_prefix.
           tf = body @ [\<lparr>ti_name = ''info/index.json'', ti_isdir = False, ti_data = index\<rparr>,
                        \<lparr>ti_name = ''info/has_prefix'', ti_isdir = False, ti_data = has_prefix\<rparr>,
                        \<lparr>ti_name = ''info/files'', ti_isdir = False,
                          ti_data = str_join [CHR 0x0A] (files b)\<rparr>]
           \<and> mset (files b) = mset (map ti_name (filter (\<lambda>ti. \<not> ti_isdir ti) body))"
proof -
  let ?b0 = "PackageBuilder_init wc pv pf bits"
  let ?P = "\<lambda>x. endswith (node_name x) ''.dist-info''"
  from assms(6) obtain b1 tf1 st2 st3 st4 where
    s1: "add_module (?b0, []) = Inr (b1, tf1)" and
    s2: "create_scripts lib (b1, tf1) = Inr st2" and
    s3: "write_pep376_record lib st2 = Inr st3" and
    s4: "write_index lib st3 = Inr st4" and
    s5: "(b, tf) = write_files_list (write_has_prefix_list st4)"
    by (auto simp: build_def split: sum.splits)
  obtain b2 tf2 where st2: "st2 = (b2, tf2)" by (cases st2)
  from add_module_target [OF s1] have t1: "same_target ?b0 b1" by simp
  from create_scripts_balance [OF s2] have
    e2: "mset (files b2) + mset (file_names tf1) = mset (files b1) + mset (file_names tf2) + {#}"
    and t2: "same_target b1 b2" by (simp_all add: st2)
  from same_target_trans [OF t1 t2] have t02: "same_target ?b0 b2" .
  then have wc2: "wheel_contents b2 = wc"
    by (simp add: same_target_def PackageBuilder_init_def)
  from write_pep376_record_member [OF s3 [unfolded st2]] wc2 assms(4)
  obtain rtext cont where rec: "open_read dist_info ''RECORD'' = Inr rtext"
    and st3: "st3 = (b2, tf2 @ [\<lparr>ti_name = site_packages_path b2 @ node_name dist_info @ ''/RECORD'',
                                  ti_isdir = False, ti_data = cont\<rparr>])"
    by auto
  let ?rp = "site_packages_path ?b0 @ node_name dist_info @ ''/RECORD''"
  let ?body = "tf2 @ [\<lparr>ti_name = ?rp, ti_isdir = False, ti_data = cont\<rparr>]"
  have st3': "st3 = (b2, ?body)"
    using st3 site_packages_path_same [OF t02] by simp
  from write_index_member [OF s4 [unfolded st3']]
  obtain index where st4: "st4 = (b2, ?body @ [\<lparr>ti_name = ''info/index.json'', ti_isdir = False,
                                                 ti_data = index\<rparr>])"
    by auto
  from check_dist_info [OF assms(2)] assms(4)
  have only: "filter ?P (unpacked wc) = [dist_info]"
    by (auto simp: find_dist_info_def)
  have hyp: "\<forall>x \<in> set (unpacked wc). ?P x \<longrightarrow> only_record x \<and> is_file x ''RECORD''"
  proof (intro ballI impI)
    fix x assume "x \<in> set (unpacked wc)" "?P x"
    then have "x \<in> set (filter ?P (unpacked wc))" by simp
    then have "x = dist_info" unfolding only by simp
    with assms(5) rec show "only_record x \<and> is_file x ''RECORD''"
      by (simp add: is_file_def)
  qed
  have pv: "CHR ''/'' \<notin> set (python_version ?b0)"
    using assms(3) by (simp add: PackageBuilder_init_def)
  have run: "add_module_loop (unpacked wc) (?b0, []) = Inr (b1, tf1)"
    using s1 by (simp add: add_module_def PackageBuilder_init_def)
  from add_module_loop_balance [OF assms(1) pv hyp run]
  have e1: "mset (files b1) + mset (file_names []) = mset (files ?b0) + mset (file_names tf1) + {#?rp#}"
    unfolding only by simp
  from mset_balance_trans [OF e1 e2]
  have "mset (files b2) = mset (file_names tf2) + {#?rp#}"
    by (simp add: PackageBuilder_init_def)
  then have bal: "mset (files b2) = mset (map ti_name (filter (\<lambda>ti. \<not> ti_isdir ti) ?body))"
    by (simp add: file_names_def)
  from s5 st4 have "b = b2"
    and "tf = ?body @ [\<lparr>ti_name = ''info/index.json'', ti_isdir = False, ti_data = index\<rparr>,
                        \<lparr>ti_name = ''info/has_prefix'', ti_isdir = False,
                          ti_data = str_join [CHR 0x0A]
                            (map (\<lambda>path. PREFIX @ '' text '' @ path) (has_prefix_files b2))\<rparr>,
                        \<lparr>ti_name = ''info/files'', ti_isdir = False,
                          ti_data = str_join [CHR 0x0A] (files b2)\<rparr>]"
    by (simp_all add: write_files_list_def write_has_prefix_list_def addfile_def Let_def)
  with bal show ?thesis by blast
qed

theorem files_list_matches_archive_witness:
  "list_all valid_node (unpacked example_wheel)
   \<and> check example_wheel = Inr ()
   \<and> CHR ''/'' \<notin> set ''3.5''
   \<and> find_dist_info example_wheel = Inr (example_dist_info ''1.0'' example_entry_points)
   \<and> only_record (example_dist_info ''1.0'' example_entry_points)
   \<and> (\<exists>b tf. build example_library (PackageBuilder_init example_wheel ''3.5'' linux ''64'') = Inr (b, tf)
        \<and> files b =
            [''lib/python3.5/site-packages/pkgmod/__init__.py'',
             ''lib/python3.5/site-packages/Foo-1.0.dist-info/METADATA'',
             ''lib/python3.5/site-packages/Foo-1.0.dist-info/WHEEL'',
             ''lib/python3.5/site-packages/Foo-1.0.dist-info/entry_points.txt'',
             ''lib/python3.5/site-packages/Foo-1.0.dist-info/RECORD'',
             ''share/x.txt'', ''bin/foo'']
        \<and> (\<exists>body index has_prefix.
              tf = body @ [\<lparr>ti_name = ''info/index.json'', ti_isdir = False, ti_data = index\<rparr>,
                           \<lparr>ti_name = ''info/has_prefix'', ti_isdir = False, ti_data = has_prefix\<rparr>,
                           \<lparr>ti_name = ''info/files'', ti_isdir = False,
                             ti_data = str_join [CHR 0x0A] (files b)\<rparr>]
              \<and> mset (files b) = mset (map ti_name (filter (\<lambda>ti. \<not> ti_isdir ti) body))))"
proof -
  let ?d = "example_dist_info ''1.0'' example_entry_points"
  let ?b0 = "PackageBuilder_init example_wheel ''3.5'' linux ''64''"
  have 1: "list_all valid_node (unpacked example_wheel)" by code_simp
  have 2: "check example_wheel = Inr ()" by code_simp
  have 3: "CHR ''/'' \<notin> set ''3.5''" by simp
  have 4: "find_dist_info example_wheel = Inr ?d"
    by (simp add: example_wheel_def find_dist_info_def example_tree_def example_dist_info_def
        endswith_def)
  have 5: "only_record ?d" by code_simp
  have "case build example_library ?b0 of
          Inl e \<Rightarrow> False
        | Inr st \<Rightarrow> files (fst st) =
            [''lib/python3.5/site-packages/pkgmod/__init__.py'',
             ''lib/python3.5/site-packages/Foo-1.0.dist-info/METADATA'',
             ''lib/python3.5/site-packages/Foo-1.0.dist-info/WHEEL'',
             ''lib/python3.5/site-packages/Foo-1.0.dist-info/entry_points.txt'',
             ''lib/python3.5/site-packages/Foo-1.0.dist-info/RECORD'',
             ''share/x.txt'', ''bin/foo'']"
    by code_simp
  then obtain b tf where 6: "build example_library ?b0 = Inr (b, tf)"
    and 7: "files b =
            [''lib/python3.5/site-packages/pkgmod/__init__.py'',
             ''lib/python3.5/site-packages/Foo-1.0.dist-info/METADATA'',
             ''lib/python3.5/site-packages/Foo-1.0.dist-info/WHEEL'',
             ''lib/python3.5/site-packages/Foo-1.0.dist-info/entry_points.txt'',
             ''lib/python3.5/site-packages/Foo-1.0.dist-info/RECORD'',
             ''share/x.txt'', ''bin/foo'']"
    by (cases "build example_library ?b0") auto
  from files_list_matches_archive [OF 1 2 3 4 5 6] 1 2 3 4 5 6 7
  show ?thesis by blast
qed

text \<open>
  The claim C1 as it was stated fails for the example: \<open>info/index.json\<close> is a regular
  file of the archive and is not in the list of files.
\<close>

theorem info_files_not_listed:
  "list_all valid_node (unpacked example_wheel)
   \<and> check example_wheel = Inr ()
   \<and> (case build example_library (PackageBuilder_init example_wheel ''3.5'' linux ''64'') of
         Inl e \<Rightarrow> False
       | Inr (b, tf) \<Rightarrow>
           ''info/index.json'' \<in> set (map ti_name (filter (\<lambda>ti. \<not> ti_isdir ti) tf))
           \<and> ''info/index.json'' \<notin> set (files b))"
  by code_simp

end
